(* ===== verification/Prelude.thy ===== *)
theory Prelude
  imports Main "HOL-Library.Word"
begin

text \<open>
  Shared vocabulary of the development: the named theorem collections that the
  component theories fill, the type synonyms for paths and Qt's \<open>qint64\<close>
  positions, and two list operations with their lemmas that both the library
  model (\<open>QtModel\<close>) and the properties of \<open>jnc::File\<close> and \<open>jnc::Json\<close> use:
  \<open>strip_CR\<close> (the carriage-return removal of a text-mode read) and
  \<open>write_at\<close> (a POSIX write at a file offset).
\<close>

named_theorems qt_defs
  "definitions of the Qt and POSIX model, unfolded to evaluate a jnc operation"
named_theorems jnc_defs
  "definitions of the jnc::File and jnc::Json operations"

text \<open>
  A path is the list of its components from the root (or from the working
  directory for a relative name), already normalised: no empty, \<open>.\<close> or
  \<open>..\<close> components. Positions are Qt's \<open>qint64\<close>, kept as \<open>int\<close>: the file
  sizes the model handles stay far below \<open>2^63\<close>.
\<close>

type_synonym path = "string list"
type_synonym qint64 = int

abbreviation CR :: char where
  "CR \<equiv> CHR 0x0D"

definition strip_CR :: "string \<Rightarrow> string" where
  "strip_CR s = filter (\<lambda>c. c \<noteq> CR) s"

text \<open>
  \<open>write_at c n t\<close> is the content of a file holding \<open>c\<close> after \<open>t\<close> is
  written at offset \<open>n\<close>: bytes before \<open>n\<close> are kept, a gap past the old end
  reads as zero bytes (POSIX), \<open>t\<close> overwrites what was there and the rest of
  \<open>c\<close> follows.
\<close>

definition write_at :: "string \<Rightarrow> nat \<Rightarrow> string \<Rightarrow> string" where
  "write_at c n t = take n c @ replicate (n - length c) (CHR 0x00) @ t @ drop (n + length t) c"

lemma strip_CR_Nil [simp]: "strip_CR [] = []"
  by (simp add: strip_CR_def)

lemma strip_CR_append [simp]: "strip_CR (xs @ ys) = strip_CR xs @ strip_CR ys"
  by (simp add: strip_CR_def)

lemma strip_CR_id [simp]: "CR \<notin> set s \<Longrightarrow> strip_CR s = s"
  by (auto simp add: strip_CR_def filter_id_conv)

lemma strip_CR_Cons [simp]:
  "strip_CR (c # s) = (if c = CR then strip_CR s else c # strip_CR s)"
  by (simp add: strip_CR_def)

lemma CR_notin_strip_CR: "CR \<notin> set (strip_CR s)"
  by (simp add: strip_CR_def)

lemma butlast_neq_self [simp]: "xs \<noteq> [] \<Longrightarrow> butlast xs \<noteq> xs"
  by (metis length_butlast diff_less length_greater_0_conv zero_less_one less_irrefl)

lemma write_at_end [simp]: "write_at c (length c) t = c @ t"
  by (simp add: write_at_def)

lemma length_write_at: "length (write_at c n t) = max (length c) (n + length t)"
  by (simp add: write_at_def)

lemma drop_write_at: "drop n (write_at c n t) = t @ drop (n + length t) c"
  by (simp add: write_at_def)

lemma take_write_at: "take n (write_at c n t) = take n c @ replicate (n - length c) (CHR 0x00)"
  by (simp add: write_at_def)

lemma write_at_Nil_0 [simp]: "write_at [] 0 t = t"
  by (simp add: write_at_def)

end
