(* ===== verification/QtModel.thy ===== *)
theory QtModel
  imports Prelude
begin

unbundle bit_operations_syntax

text \<open>
  The part of Qt 6 and of the POSIX file system that \<open>jnc::File\<close> calls,
  modelled from their documented behaviour (the library is not part of the
  repository). The operating system is a \<open>world\<close>: a file system mapping
  paths to directories and regular files (with read and write permission) and
  the number of file descriptors held open. A \<open>QFile\<close> is its file name, its
  \<open>QIODevice\<close> open mode (a flag word, \<open>NotOpen\<close> when closed) and its
  position. Each library call takes the world and returns the new one.

  Modelled calls: \<open>QDir(name).cdUp()\<close>, \<open>QFile::setFileName\<close>,
  \<open>QFile::open\<close> (with the flag normalisation of \<open>QFSFileEngine\<close> and the
  POSIX \<open>open\<close> it issues), \<open>QFileDevice::close\<close>, \<open>QFileDevice::seek\<close>,
  \<open>QIODevice::pos\<close>, and \<open>QTextStream::readAll\<close> and \<open>operator<<\<close> on a file
  device (the stream is created, used once and destroyed, which flushes it).
\<close>

subsection \<open>The operating system\<close>

datatype node = Dir | Reg (contents: string) (readable: bool) (writable: bool)

record world =
  fs :: "path \<rightharpoonup> node"
  open_fds :: nat

text \<open>
  A well-formed file system has the root directory and every other entry lies
  in a directory; every operation of the model keeps this.
\<close>

definition wf_fs :: "world \<Rightarrow> bool" where
  "wf_fs w \<longleftrightarrow> fs w [] = Some Dir \<and>
     (\<forall>p n. fs w p = Some n \<and> p \<noteq> [] \<longrightarrow> fs w (butlast p) = Some Dir)"

subsection \<open>QIODeviceBase::OpenMode flags\<close>

abbreviation NotOpen :: "32 word" where "NotOpen \<equiv> 0x0000"
abbreviation ReadOnly :: "32 word" where "ReadOnly \<equiv> 0x0001"
abbreviation WriteOnly :: "32 word" where "WriteOnly \<equiv> 0x0002"
abbreviation ReadWrite :: "32 word" where "ReadWrite \<equiv> 0x0003"
abbreviation Append :: "32 word" where "Append \<equiv> 0x0004"
abbreviation Truncate :: "32 word" where "Truncate \<equiv> 0x0008"
abbreviation Text :: "32 word" where "Text \<equiv> 0x0010"

text \<open>\<open>mode & flag\<close> tested as a condition: some bit of the flag is set.\<close>

definition has_flag :: "32 word \<Rightarrow> 32 word \<Rightarrow> bool" where
  [qt_defs]: "has_flag m f \<longleftrightarrow> m AND f \<noteq> 0"

subsection \<open>QDir\<close>

text \<open>
  \<open>QDir(fileName).cdUp()\<close> moves to the parent of \<open>fileName\<close> and succeeds
  when that parent exists as a directory; the root has no parent.
\<close>

definition QDir_cdUp :: "path \<Rightarrow> world \<Rightarrow> bool" where
  [qt_defs]: "QDir_cdUp p w \<longleftrightarrow> p \<noteq> [] \<and> fs w (butlast p) = Some Dir"

subsection \<open>Opening a file: the engine's flags and POSIX open\<close>

text \<open>
  \<open>QFSFileEngine\<close> normalises the mode before the system call: \<open>Append\<close>
  implies \<open>WriteOnly\<close>, and \<open>WriteOnly\<close> without \<open>ReadOnly\<close> or \<open>Append\<close>
  implies \<open>Truncate\<close>.
\<close>

definition engine_mode :: "32 word \<Rightarrow> 32 word" where
  [qt_defs]: "engine_mode m =
     (let m1 = (if has_flag m Append then m OR WriteOnly else m) in
      if has_flag m1 WriteOnly \<and> \<not> has_flag m1 (ReadOnly OR Append) then m1 OR Truncate else m1)"

text \<open>
  POSIX \<open>open\<close> with the flags of a normalised mode: a directory is refused
  (Qt closes it again and fails); an existing file needs the permissions the
  mode asks for and is emptied under \<open>Truncate\<close>; a missing file is created
  (empty, readable and writable) only by a writing mode and only inside an
  existing directory. Success holds one more descriptor.
\<close>

definition posix_open :: "path \<Rightarrow> 32 word \<Rightarrow> world \<Rightarrow> world option" where
  [qt_defs]: "posix_open p m w =
     (case fs w p of
        Some Dir \<Rightarrow> None
      | Some (Reg c r wr) \<Rightarrow>
          if (has_flag m ReadOnly \<and> \<not> r) \<or> (has_flag m WriteOnly \<and> \<not> wr) then None
          else Some (w\<lparr>fs := (fs w)(p \<mapsto> Reg (if has_flag m Truncate then [] else c) r wr),
                       open_fds := Suc (open_fds w)\<rparr>)
      | None \<Rightarrow>
          if has_flag m WriteOnly \<and> p \<noteq> [] \<and> fs w (butlast p) = Some Dir
          then Some (w\<lparr>fs := (fs w)(p \<mapsto> Reg [] True True), open_fds := Suc (open_fds w)\<rparr>)
          else None)"

subsection \<open>QFile\<close>

record QFile =
  qf_fileName :: path
  qf_openMode :: "32 word"
  qf_pos :: qint64

text \<open>\<open>new QFile\<close>: no file name, not open, at position 0.\<close>

definition QFile_new :: QFile where
  [qt_defs]: "QFile_new = \<lparr>qf_fileName = [], qf_openMode = NotOpen, qf_pos = 0\<rparr>"

definition QFile_isOpen :: "QFile \<Rightarrow> bool" where
  [qt_defs]: "QFile_isOpen q \<longleftrightarrow> qf_openMode q \<noteq> NotOpen"

definition QFile_size :: "QFile \<Rightarrow> world \<Rightarrow> qint64" where
  [qt_defs]: "QFile_size q w =
     (case fs w (qf_fileName q) of Some (Reg c r wr) \<Rightarrow> int (length c) | _ \<Rightarrow> 0)"

text \<open>
  \<open>QFileDevice::close\<close>: nothing on a closed file; otherwise the descriptor
  is released, the mode becomes \<open>NotOpen\<close> and the position 0. The
  destructor of \<open>QFile\<close> does the same.
\<close>

definition QFile_close :: "QFile \<Rightarrow> world \<Rightarrow> QFile \<times> world" where
  [qt_defs]: "QFile_close q w =
     (if QFile_isOpen q
      then (q\<lparr>qf_openMode := NotOpen, qf_pos := 0\<rparr>, w\<lparr>open_fds := open_fds w - 1\<rparr>)
      else (q, w))"

text \<open>\<open>QFile::setFileName\<close> closes an open file first.\<close>

definition QFile_setFileName :: "path \<Rightarrow> QFile \<Rightarrow> world \<Rightarrow> QFile \<times> world" where
  [qt_defs]: "QFile_setFileName name q w =
     (let (q1, w1) = QFile_close q w in (q1\<lparr>qf_fileName := name\<rparr>, w1))"

text \<open>
  \<open>QFile::open\<close>: refused on an open file; \<open>Append\<close> adds \<open>WriteOnly\<close>; a
  mode with neither \<open>ReadOnly\<close> nor \<open>WriteOnly\<close> is refused; otherwise the
  engine opens the file with the normalised flags. On success the device
  keeps the mode (with \<open>Text\<close>, without the engine's \<open>Truncate\<close>) and starts
  at 0, or at the end of the file under \<open>Append\<close>.
\<close>

definition QFile_open :: "32 word \<Rightarrow> QFile \<Rightarrow> world \<Rightarrow> bool \<times> QFile \<times> world" where
  [qt_defs]: "QFile_open mode q w =
     (if QFile_isOpen q then (False, q, w)
      else
        let m = (if has_flag mode Append then mode OR WriteOnly else mode) in
        if \<not> has_flag m ReadWrite then (False, q, w)
        else
          (case posix_open (qf_fileName q) (engine_mode m) w of
             None \<Rightarrow> (False, q, w)
           | Some w1 \<Rightarrow>
               let q1 = q\<lparr>qf_openMode := m, qf_pos := 0\<rparr> in
               (True, if has_flag m Append then q1\<lparr>qf_pos := QFile_size q1 w1\<rparr> else q1, w1)))"

text \<open>
  \<open>QFileDevice::seek\<close>: refused on a closed file and for a negative offset;
  a position past the end is allowed.
\<close>

definition QFile_seek :: "qint64 \<Rightarrow> QFile \<Rightarrow> bool \<times> QFile" where
  [qt_defs]: "QFile_seek off q =
     (if \<not> QFile_isOpen q \<or> off < 0 then (False, q) else (True, q\<lparr>qf_pos := off\<rparr>))"

subsection \<open>QTextStream on a file device\<close>

text \<open>
  \<open>QTextStream(&file).readAll()\<close>: on a device not open for reading, the
  empty string. Otherwise the bytes from the position to the end of the file;
  in \<open>Text\<close> mode every carriage return is dropped. The position moves to the
  end (it stays where it is when it was already past the end).
\<close>

definition QTextStream_readAll :: "QFile \<Rightarrow> world \<Rightarrow> string \<times> QFile" where
  [qt_defs]: "QTextStream_readAll q w =
     (if \<not> has_flag (qf_openMode q) ReadOnly then ([], q)
      else
        (case fs w (qf_fileName q) of
           Some (Reg c r wr) \<Rightarrow>
             let raw = drop (nat (qf_pos q)) c in
             (if has_flag (qf_openMode q) Text then strip_CR raw else raw,
              q\<lparr>qf_pos := max (qf_pos q) (int (length c))\<rparr>)
         | _ \<Rightarrow> ([], q)))"

text \<open>
  \<open>QTextStream(&file) << text\<close>, flushed when the stream is destroyed: an
  empty text writes nothing; a device not open for writing refuses the write.
  Under \<open>Append\<close> the system appends at the end of the file whatever the
  position; otherwise the text is written at the position. Either way the
  device's position advances by the length written. On Unix text mode does not
  translate line ends on output.
\<close>

definition QTextStream_write :: "string \<Rightarrow> QFile \<Rightarrow> world \<Rightarrow> QFile \<times> world" where
  [qt_defs]: "QTextStream_write t q w =
     (if t = [] \<or> \<not> has_flag (qf_openMode q) WriteOnly then (q, w)
      else
        (case fs w (qf_fileName q) of
           Some (Reg c r wr) \<Rightarrow>
             let c' = (if has_flag (qf_openMode q) Append then c @ t
                       else write_at c (nat (qf_pos q)) t) in
             (q\<lparr>qf_pos := qf_pos q + int (length t)\<rparr>,
              w\<lparr>fs := (fs w)(qf_fileName q \<mapsto> Reg c' r wr)\<rparr>)
         | _ \<Rightarrow> (q, w)))"

text \<open>The content of the regular file at a path (empty for anything else).\<close>

definition file_text :: "world \<Rightarrow> path \<Rightarrow> string" where
  "file_text w p = (case fs w p of Some (Reg c r wr) \<Rightarrow> c | _ \<Rightarrow> [])"

subsection \<open>Lemmas of the library model\<close>

lemma has_flag_NotOpen [simp]: "\<not> has_flag NotOpen f"
  by (simp add: has_flag_def)

lemma QFile_isOpen_upd [simp]:
  "QFile_isOpen (q\<lparr>qf_fileName := p\<rparr>) = QFile_isOpen q"
  "QFile_isOpen (q\<lparr>qf_pos := n\<rparr>) = QFile_isOpen q"
  "QFile_isOpen (q\<lparr>qf_openMode := m\<rparr>) \<longleftrightarrow> m \<noteq> NotOpen"
  by (simp_all add: QFile_isOpen_def)

lemma wf_fs_fds [simp]: "wf_fs (w\<lparr>open_fds := n\<rparr>) = wf_fs w"
  by (simp add: wf_fs_def)

lemma wf_fs_upd_Reg:
  assumes wf: "wf_fs w" and p: "fs w p = Some (Reg c r wr)"
  shows "wf_fs (w\<lparr>fs := (fs w)(p \<mapsto> Reg c' r' wr')\<rparr>)"
proof -
  have root: "fs w [] = Some Dir" using wf by (simp add: wf_fs_def)
  then have ne: "p \<noteq> []" using p by auto
  have up: "fs w q = Some n \<Longrightarrow> q \<noteq> [] \<Longrightarrow> fs w (butlast q) = Some Dir" for q n
    using wf by (auto simp: wf_fs_def)
  have parent: "((fs w)(p \<mapsto> Reg c' r' wr')) (butlast q) = Some Dir"
    if "((fs w)(p \<mapsto> Reg c' r' wr')) q = Some n" and "q \<noteq> []" for q n
  proof -
    have "fs w (butlast q) = Some Dir"
      using that p up by (cases "q = p") auto
    moreover then have "butlast q \<noteq> p" using p by auto
    ultimately show ?thesis by simp
  qed
  show ?thesis using root ne parent by (auto simp: wf_fs_def)
qed

lemma wf_fs_put_Reg:
  assumes wf: "wf_fs w" and ne: "p \<noteq> []" and par: "fs w (butlast p) = Some Dir"
    and nd: "fs w p \<noteq> Some Dir"
  shows "wf_fs (w\<lparr>fs := (fs w)(p \<mapsto> Reg c' r' wr')\<rparr>)"
proof -
  have root: "fs w [] = Some Dir" using wf by (simp add: wf_fs_def)
  have up: "fs w q = Some n \<Longrightarrow> q \<noteq> [] \<Longrightarrow> fs w (butlast q) = Some Dir" for q n
    using wf by (auto simp: wf_fs_def)
  have parent: "((fs w)(p \<mapsto> Reg c' r' wr')) (butlast q) = Some Dir"
    if "((fs w)(p \<mapsto> Reg c' r' wr')) q = Some n" and "q \<noteq> []" for q n
  proof -
    have "fs w (butlast q) = Some Dir"
      using that par up by (cases "q = p") auto
    moreover then have "butlast q \<noteq> p" using nd by auto
    ultimately show ?thesis by simp
  qed
  show ?thesis using root ne parent by (auto simp: wf_fs_def)
qed

lemma QFile_close_closed [simp]: "\<not> QFile_isOpen q \<Longrightarrow> QFile_close q w = (q, w)"
  by (simp add: QFile_close_def)

lemma QFile_close_isOpen [simp]: "\<not> QFile_isOpen (fst (QFile_close q w))"
  by (simp add: QFile_close_def QFile_isOpen_def)

lemma fs_QFile_close [simp]: "fs (snd (QFile_close q w)) = fs w"
  by (simp add: QFile_close_def)

lemma posix_open_None_iff:
  "posix_open p m w = None \<longleftrightarrow>
     (case fs w p of
        Some Dir \<Rightarrow> True
      | Some (Reg c r wr) \<Rightarrow> (has_flag m ReadOnly \<and> \<not> r) \<or> (has_flag m WriteOnly \<and> \<not> wr)
      | None \<Rightarrow> \<not> (has_flag m WriteOnly \<and> p \<noteq> [] \<and> fs w (butlast p) = Some Dir))"
  by (simp add: posix_open_def split: option.splits node.splits)

lemma posix_open_fds:
  "posix_open p m w = Some w' \<Longrightarrow> open_fds w' = Suc (open_fds w)"
  by (auto simp: posix_open_def split: option.splits node.splits if_splits)

lemma posix_open_Reg:
  "posix_open p m w = Some w' \<Longrightarrow> \<exists>c r wr. fs w' p = Some (Reg c r wr)"
  by (auto simp: posix_open_def split: option.splits node.splits if_splits)

lemma posix_open_frame:
  "posix_open p m w = Some w' \<Longrightarrow> q \<noteq> p \<Longrightarrow> fs w' q = fs w q"
  by (auto simp: posix_open_def split: option.splits node.splits if_splits)

lemma posix_open_wf:
  assumes "posix_open p m w = Some w'" and "wf_fs w"
  shows "wf_fs w'"
  using assms
  by (auto simp: posix_open_def wf_fs_def split: option.splits node.splits if_splits)

lemma QTextStream_write_fds [simp]: "open_fds (snd (QTextStream_write t q w)) = open_fds w"
  by (simp add: QTextStream_write_def Let_def split: option.splits node.splits)

end
