(* ===== verification/JncFile.thy ===== *)
theory JncFile
  imports QtModel
begin

unbundle bit_operations_syntax

text \<open>
  \<open>jnc::File\<close> (src/Qt/File.h, src/Qt/File.cpp): a wrapper that owns one
  \<open>QFile\<close>. Its state is the state of that \<open>QFile\<close>; each method is one
  definition over the \<open>QFile\<close> and the world, calling the library model of
  \<open>QtModel\<close> exactly where the C++ calls Qt. The theory then proves, per
  operation, its behaviour on every branch, the mode table, and an invariant of
  every sequence of operations on one handle.
\<close>

subsection \<open>Data: the two enumerations\<close>

datatype OpenMode = read | "write" | append | readplus | writeplus | appendplus

datatype ErrorCode = NoError | InvalidMode | FilePathNotExist | FailOpenFile

text \<open>
  \<open>OpenMode\<close> is a scoped enumeration with underlying type \<open>int\<close>, so a value
  of the type is any \<open>int\<close>; the enumerators are 0 to 5. \<open>File::open\<close> is
  modelled on the value it receives, which makes the \<open>default:\<close> branch of its
  \<open>switch\<close> reachable (by a cast such as \<open>static_cast<OpenMode>(7)\<close>).
\<close>

primrec OpenMode_val :: "OpenMode \<Rightarrow> int" where
  "OpenMode_val read = 0"
| "OpenMode_val write = 1"
| "OpenMode_val append = 2"
| "OpenMode_val readplus = 3"
| "OpenMode_val writeplus = 4"
| "OpenMode_val appendplus = 5"

subsection \<open>Operations\<close>

text \<open>\<open>jnc::File\<close> holds nothing but its \<open>QFile* m_file\<close>.\<close>

type_synonym File = QFile

definition File_new :: File where
  [jnc_defs]: "File_new = QFile_new"

definition File_delete :: "File \<Rightarrow> world \<Rightarrow> world" where
  [jnc_defs]: "File_delete f w = snd (QFile_close f w)"

text \<open>
  The \<open>switch\<close> of \<open>File::open\<close>: starting from \<open>QIODeviceBase::Text\<close>, each
  enumerator adds its flags; any other value takes the \<open>default:\<close> branch,
  here \<open>None\<close>.
\<close>

definition File_ioMode :: "int \<Rightarrow> 32 word option" where
  [jnc_defs]: "File_ioMode mode =
     (let ioMode = Text in
      if mode = OpenMode_val read then Some (ioMode OR ReadOnly)
      else if mode = OpenMode_val write then Some (ioMode OR WriteOnly)
      else if mode = OpenMode_val append then Some (ioMode OR Append)
      else if mode = OpenMode_val readplus then Some (ioMode OR ReadWrite)
      else if mode = OpenMode_val writeplus then Some (ioMode OR (ReadWrite OR Truncate))
      else if mode = OpenMode_val appendplus then Some (ioMode OR (ReadOnly OR Append))
      else None)"

definition File_open :: "path \<Rightarrow> int \<Rightarrow> File \<Rightarrow> world \<Rightarrow> ErrorCode \<times> File \<times> world" where
  [jnc_defs]: "File_open fileName mode f w =
     (if \<not> QDir_cdUp fileName w then (FilePathNotExist, f, w)
      else
        (case File_ioMode mode of
           None \<Rightarrow> (InvalidMode, f, w)
         | Some ioMode \<Rightarrow>
             let (f1, w1) = QFile_setFileName fileName f w;
                 (ok, f2, w2) = QFile_open ioMode f1 w1
             in if \<not> ok then (FailOpenFile, f2, w2) else (NoError, f2, w2)))"

definition File_close :: "File \<Rightarrow> world \<Rightarrow> File \<times> world" where
  [jnc_defs]: "File_close f w = QFile_close f w"

definition File_read :: "File \<Rightarrow> world \<Rightarrow> string \<times> File" where
  [jnc_defs]: "File_read f w = QTextStream_readAll f w"

definition File_write :: "string \<Rightarrow> File \<Rightarrow> world \<Rightarrow> File \<times> world" where
  [jnc_defs]: "File_write text f w = QTextStream_write text f w"

definition File_seek :: "qint64 \<Rightarrow> File \<Rightarrow> File" where
  [jnc_defs]: "File_seek pos f = snd (QFile_seek pos f)"

definition File_tell :: "File \<Rightarrow> qint64" where
  [jnc_defs]: "File_tell f = qf_pos f"

subsection \<open>Specification helpers\<close>

text \<open>
  The mode a successfully opened \<open>QFile\<close> keeps for each enumerator:
  \<open>QFile::open\<close> stores the flags of the \<open>switch\<close>, with \<open>WriteOnly\<close> added
  under \<open>Append\<close>.
\<close>

primrec device_mode :: "OpenMode \<Rightarrow> 32 word" where
  "device_mode read = Text OR ReadOnly"
| "device_mode write = Text OR WriteOnly"
| "device_mode append = Text OR WriteOnly OR Append"
| "device_mode readplus = Text OR ReadWrite"
| "device_mode writeplus = Text OR ReadWrite OR Truncate"
| "device_mode appendplus = Text OR ReadWrite OR Append"

text \<open>
  The operations a client can apply to one handle, and the state reached by any
  sequence of them from a fresh handle in a world \<open>w0\<close>.
\<close>

datatype FileOp = OpOpen path int | OpClose | OpRead | OpWrite string | OpSeek qint64 | OpTell

fun File_step :: "FileOp \<Rightarrow> File \<times> world \<Rightarrow> File \<times> world" where
  "File_step (OpOpen p m) (f, w) = snd (File_open p m f w)"
| "File_step OpClose (f, w) = File_close f w"
| "File_step OpRead (f, w) = (snd (File_read f w), w)"
| "File_step (OpWrite t) (f, w) = File_write t f w"
| "File_step (OpSeek n) (f, w) = (File_seek n f, w)"
| "File_step OpTell (f, w) = (f, w)"

inductive File_reach :: "world \<Rightarrow> File \<times> world \<Rightarrow> bool" for w0 :: world where
  start: "File_reach w0 (File_new, w0)"
| step: "File_reach w0 s \<Longrightarrow> File_reach w0 (File_step op s)"

text \<open>
  The handle invariant: the file system stays well formed, the position is
  never negative, the handle holds exactly one descriptor while open and none
  when closed, an open handle names an existing regular file and has the mode
  of one of the six enumerators, and a closed handle is at position 0.
\<close>

definition File_inv :: "world \<Rightarrow> File \<Rightarrow> world \<Rightarrow> bool" where
  "File_inv w0 f w \<longleftrightarrow>
     wf_fs w \<and> 0 \<le> qf_pos f \<and>
     open_fds w = open_fds w0 + (if QFile_isOpen f then 1 else 0) \<and>
     (QFile_isOpen f \<longrightarrow> (\<exists>c r wr. fs w (qf_fileName f) = Some (Reg c r wr)) \<and>
                         (\<exists>m. qf_openMode f = device_mode m)) \<and>
     (\<not> QFile_isOpen f \<longrightarrow> qf_pos f = 0)"

text \<open>
  A path every mode but \<open>read\<close> can open (and so \<open>Json::dump\<close> can always
  write and \<open>Json::load\<close> can always read): its parent directory exists, and
  it is missing or a readable and writable file.
\<close>

definition dumpable :: "world \<Rightarrow> path \<Rightarrow> bool" where
  "dumpable w p \<longleftrightarrow> QDir_cdUp p w \<and>
     (case fs w p of None \<Rightarrow> True | Some Dir \<Rightarrow> False | Some (Reg c r wr) \<Rightarrow> r \<and> wr)"

text \<open>A small file system for the witnesses: the root, one directory, two files.\<close>

definition demo_world :: world where
  "demo_world =
     \<lparr>fs = [[] \<mapsto> Dir, [''cfg''] \<mapsto> Dir,
            [''cfg'', ''a.json''] \<mapsto> Reg ''{}'' True True,
            [''cfg'', ''ro.json''] \<mapsto> Reg ''[]'' True False],
      open_fds = 0\<rparr>"

subsection \<open>Opening: the normal form of File::open\<close>

lemma File_new_fields [simp]:
  "qf_openMode File_new = NotOpen" "qf_pos File_new = 0" "\<not> QFile_isOpen File_new"
  by (simp_all add: File_new_def QFile_new_def QFile_isOpen_def)

lemma QFile_close_new [simp]: "QFile_close File_new w = (File_new, w)"
  by simp

lemma File_delete_closed [simp]: "\<not> QFile_isOpen f \<Longrightarrow> File_delete f w = w"
  by (simp add: File_delete_def)

lemma QFile_setFileName_eq:
  "QFile_setFileName p f w = ((fst (QFile_close f w))\<lparr>qf_fileName := p\<rparr>, snd (QFile_close f w))"
  by (simp add: QFile_setFileName_def split: prod.splits)

text \<open>
  For one of the six enumerators and an existing parent directory,
  \<open>File::open\<close> closes the handle, names it, and issues one POSIX \<open>open\<close>
  with the engine's flags; on success the handle keeps \<open>device_mode\<close> and
  starts at 0, or at the end of the file for the two appending modes.
\<close>

lemma File_open_valid:
  assumes "QDir_cdUp p w"
  shows "File_open p (OpenMode_val m) f w =
    (let f1 = (fst (QFile_close f w))\<lparr>qf_fileName := p\<rparr>; w1 = snd (QFile_close f w) in
     case posix_open p (engine_mode (device_mode m)) w1 of
       None \<Rightarrow> (FailOpenFile, f1, w1)
     | Some w2 \<Rightarrow> (NoError, f1\<lparr>qf_openMode := device_mode m,
           qf_pos := if has_flag (device_mode m) Append then int (length (file_text w2 p)) else 0\<rparr>, w2))"
  using assms
  by (cases m) (simp_all add: File_open_def File_ioMode_def QFile_open_def QFile_setFileName_eq
        QFile_close_def QFile_isOpen_def QFile_size_def file_text_def engine_mode_def has_flag_def
        Let_def split: option.splits node.splits)

subsection \<open>Properties of File::open\<close>

text \<open>
  C2. The mode table: the flags the operating system sees for each of the six
  modes (the \<open>switch\<close> of \<open>File::open\<close> followed by Qt's normalisation).
  \<open>write\<close> truncates the file on open, and \<open>appendplus\<close>, which the code
  writes as \<open>ReadOnly | Append\<close>, is writable as well as readable.
\<close>

theorem File_ioMode_table:
  "map_option engine_mode (File_ioMode (OpenMode_val m)) = Some (case m of
       read \<Rightarrow> Text OR ReadOnly
     | write \<Rightarrow> Text OR WriteOnly OR Truncate
     | append \<Rightarrow> Text OR WriteOnly OR Append
     | readplus \<Rightarrow> Text OR ReadWrite
     | writeplus \<Rightarrow> Text OR ReadWrite OR Truncate
     | appendplus \<Rightarrow> Text OR ReadWrite OR Append)"
  by (cases m) (simp_all add: File_ioMode_def engine_mode_def has_flag_def)

text \<open>
  C3. The error code \<open>File::open\<close> returns for each of the six modes, in terms
  of the file system only: \<open>FilePathNotExist\<close> without a parent directory;
  otherwise \<open>FailOpenFile\<close> for a directory, for a missing file in \<open>read\<close>
  mode, and for a file without the permission the mode needs; \<open>NoError\<close> in
  every other case, whether or not the handle was already open.
\<close>

theorem File_open_result:
  "fst (File_open p (OpenMode_val m) f w) =
    (if \<not> QDir_cdUp p w then FilePathNotExist
     else case fs w p of
        None \<Rightarrow> if m = read then FailOpenFile else NoError
      | Some Dir \<Rightarrow> FailOpenFile
      | Some (Reg c r wr) \<Rightarrow>
          if (m \<in> {read, readplus, writeplus, appendplus} \<and> \<not> r) \<or> (m \<noteq> read \<and> \<not> wr)
          then FailOpenFile else NoError)"
proof (cases "QDir_cdUp p w")
  case True
  have "fst (File_open p (OpenMode_val m) f w) =
      (if posix_open p (engine_mode (device_mode m)) (snd (QFile_close f w)) = None
       then FailOpenFile else NoError)"
    by (simp add: File_open_valid [OF True] Let_def split: option.splits)
  with True show ?thesis
    by (cases m) (simp_all add: posix_open_None_iff engine_mode_def has_flag_def QDir_cdUp_def
        split: option.splits node.splits)
next
  case False
  then show ?thesis by (simp add: File_open_def)
qed

text \<open>
  C4. Without an existing parent directory \<open>File::open\<close> returns
  \<open>FilePathNotExist\<close> and changes nothing, for every mode value, valid or
  not: the directory check comes before the mode check.
\<close>

theorem File_open_no_parent:
  assumes "\<not> QDir_cdUp p w"
  shows "File_open p mode f w = (FilePathNotExist, f, w)"
  using assms by (simp add: File_open_def)

theorem File_open_no_parent_witness:
  "\<not> QDir_cdUp [''tmp'', ''a.json''] demo_world \<and>
   File_open [''tmp'', ''a.json''] 7 File_new demo_world = (FilePathNotExist, File_new, demo_world)"
proof -
  have h: "\<not> QDir_cdUp [''tmp'', ''a.json''] demo_world"
    by (simp add: QDir_cdUp_def demo_world_def)
  show ?thesis using h File_open_no_parent [OF h, of 7 File_new] by simp
qed

text \<open>
  C5. A mode value outside the six enumerators, with an existing parent
  directory, takes the \<open>default:\<close> branch: \<open>InvalidMode\<close>, with the handle and
  the file system unchanged.
\<close>

theorem File_open_invalid_mode:
  assumes "QDir_cdUp p w" and "mode < 0 \<or> 5 < mode"
  shows "File_open p mode f w = (InvalidMode, f, w)"
  using assms by (auto simp: File_open_def File_ioMode_def Let_def)

theorem File_open_invalid_mode_witness:
  "QDir_cdUp [''cfg'', ''a.json''] demo_world \<and> ((7::int) < 0 \<or> 5 < (7::int)) \<and>
   File_open [''cfg'', ''a.json''] 7 File_new demo_world = (InvalidMode, File_new, demo_world)"
proof -
  have h1: "QDir_cdUp [''cfg'', ''a.json''] demo_world"
    by (simp add: QDir_cdUp_def demo_world_def)
  have h2: "(7::int) < 0 \<or> 5 < (7::int)" by simp
  show ?thesis using h1 h2 File_open_invalid_mode [OF h1 h2, of File_new] by simp
qed

subsection \<open>The handle invariant\<close>

lemma File_ioMode_Some: "File_ioMode v = Some x \<Longrightarrow> \<exists>m. v = OpenMode_val m"
  by (auto simp: File_ioMode_def Let_def split: if_splits) (metis OpenMode_val.simps)+

lemma device_mode_open [simp]: "device_mode m \<noteq> NotOpen"
  by (cases m) simp_all


lemma qf_close_fields [simp]:
  "qf_fileName (fst (QFile_close f w)) = qf_fileName f"
  "open_fds (snd (QFile_close f w)) = (if QFile_isOpen f then open_fds w - 1 else open_fds w)"
  by (simp_all add: QFile_close_def)

lemma File_inv_close:
  assumes "File_inv w0 f w"
  shows "File_inv w0 (fst (File_close f w)) (snd (File_close f w))"
  using assms by (auto simp: File_inv_def File_close_def QFile_close_def QFile_isOpen_def)

lemma File_inv_open:
  assumes "File_inv w0 f w"
  shows "File_inv w0 (fst (snd (File_open p v f w))) (snd (snd (File_open p v f w)))"
proof (cases "QDir_cdUp p w \<and> File_ioMode v \<noteq> None")
  case True
  then obtain m where v: "v = OpenMode_val m" using File_ioMode_Some by blast
  have up: "QDir_cdUp p w" using True by simp
  have cl: "File_inv w0 (fst (QFile_close f w)) (snd (QFile_close f w))"
    using File_inv_close [OF assms] by (simp add: File_close_def)
  show ?thesis
  proof (cases "posix_open p (engine_mode (device_mode m)) (snd (QFile_close f w))")
    case None
    with cl show ?thesis
      by (simp add: v File_open_valid [OF up] File_inv_def)
  next
    case (Some w2)
    have "wf_fs w2" using posix_open_wf [OF Some] cl by (simp add: File_inv_def)
    moreover have "open_fds w2 = Suc (open_fds (snd (QFile_close f w)))"
      using posix_open_fds [OF Some] .
    moreover have "\<exists>c r wr. fs w2 p = Some (Reg c r wr)"
      using posix_open_Reg [OF Some] .
    ultimately show ?thesis using Some cl
      by (auto simp: v File_open_valid [OF up] File_inv_def)
  qed
next
  case False
  with assms show ?thesis by (auto simp: File_open_def)
qed

lemma File_inv_read:
  assumes "File_inv w0 f w"
  shows "File_inv w0 (snd (File_read f w)) w"
  using assms
  by (auto simp: File_inv_def File_read_def QTextStream_readAll_def QFile_isOpen_def Let_def
      split: option.splits node.splits)

lemma File_inv_write:
  assumes "File_inv w0 f w"
  shows "File_inv w0 (fst (File_write t f w)) (snd (File_write t f w))"
  using assms
  by (auto simp: File_inv_def File_write_def QTextStream_write_def QFile_isOpen_def Let_def
      wf_fs_upd_Reg split: option.splits node.splits)

lemma File_inv_seek:
  assumes "File_inv w0 f w"
  shows "File_inv w0 (File_seek n f) w"
  using assms by (auto simp: File_inv_def File_seek_def QFile_seek_def QFile_isOpen_def)

lemma File_inv_step:
  assumes "File_inv w0 (fst s) (snd s)"
  shows "File_inv w0 (fst (File_step op s)) (snd (File_step op s))"
proof -
  obtain f w where s: "s = (f, w)" by fastforce
  have inv: "File_inv w0 f w" using assms s by simp
  show ?thesis
  proof (cases op)
    case (OpOpen p v)
    then show ?thesis using File_inv_open [OF inv] s by simp
  next
    case OpClose
    then show ?thesis using File_inv_close [OF inv] s by simp
  next
    case OpRead
    then show ?thesis using File_inv_read [OF inv] s by simp
  next
    case (OpWrite t)
    then show ?thesis using File_inv_write [OF inv] s by simp
  next
    case (OpSeek n)
    then show ?thesis using File_inv_seek [OF inv] s by simp
  next
    case OpTell
    then show ?thesis using inv s by simp
  qed
qed

lemma File_reach_File_inv:
  assumes "File_reach w0 s" and "wf_fs w0"
  shows "File_inv w0 (fst s) (snd s)"
  using assms(1)
proof (induction rule: File_reach.induct)
  case start
  show ?case using assms(2) by (simp add: File_inv_def)
next
  case (step s op)
  from step.IH show ?case by (rule File_inv_step)
qed

text \<open>
  C6. Invariant: every state reached from a fresh handle in a well-formed
  world, by any sequence of \<open>open\<close>, \<open>close\<close>, \<open>read\<close>, \<open>write\<close>,
  \<open>seek\<close> and \<open>tell\<close>, satisfies \<open>File_inv\<close>: in particular the handle never
  leaks or double-releases a descriptor and its position is never negative.
\<close>

theorem File_reach_inv:
  assumes "File_reach w0 s" and "wf_fs w0"
  shows "File_inv w0 (fst s) (snd s)"
  using assms by (rule File_reach_File_inv)

theorem File_reach_inv_witness:
  "File_reach demo_world (File_step (OpOpen [''cfg'', ''a.json''] 0) (File_new, demo_world)) \<and>
   wf_fs demo_world \<and>
   File_inv demo_world (fst (File_step (OpOpen [''cfg'', ''a.json''] 0) (File_new, demo_world)))
                       (snd (File_step (OpOpen [''cfg'', ''a.json''] 0) (File_new, demo_world)))"
proof -
  have h1: "File_reach demo_world (File_step (OpOpen [''cfg'', ''a.json''] 0) (File_new, demo_world))"
    by (rule File_reach.step [OF File_reach.start])
  have h2: "wf_fs demo_world"
    by (auto simp: wf_fs_def demo_world_def)
  show ?thesis using h1 h2 File_reach_inv [OF h1 h2] by simp
qed

subsection \<open>Reading, writing and positioning\<close>

lemma device_mode_flags [simp]:
  "has_flag (device_mode m) Text"
  "has_flag (device_mode m) Append \<longleftrightarrow> m \<in> {append, appendplus}"
  "has_flag (device_mode m) ReadOnly \<longleftrightarrow> m \<notin> {write, append}"
  "has_flag (device_mode m) WriteOnly \<longleftrightarrow> m \<noteq> read"
  "has_flag (engine_mode (device_mode m)) Truncate \<longleftrightarrow> m \<in> {write, writeplus}"
  by (cases m; simp add: has_flag_def engine_mode_def)+

declare device_mode.simps [simp del]

lemma posix_open_text:
  "posix_open p M w = Some w' \<Longrightarrow> file_text w' p = (if has_flag M Truncate then [] else file_text w p)"
  by (auto simp: posix_open_def file_text_def split: option.splits node.splits if_splits)

lemma File_open_NoE:
  assumes "File_open p (OpenMode_val m) f w = (NoError, f', w')"
  obtains "QDir_cdUp p w"
    and "posix_open p (engine_mode (device_mode m)) (snd (QFile_close f w)) = Some w'"
    and "f' = (fst (QFile_close f w))\<lparr>qf_fileName := p, qf_openMode := device_mode m,
           qf_pos := if m \<in> {append, appendplus} then int (length (file_text w' p)) else 0\<rparr>"
proof -
  have up: "QDir_cdUp p w"
    using assms by (cases "QDir_cdUp p w") (simp_all add: File_open_def)
  show ?thesis
    using assms that [OF up]
    by (auto simp: File_open_valid [OF up] Let_def split: option.splits)
qed

lemma File_write_text:
  assumes "fs w (qf_fileName f) = Some (Reg c r wr)"
  shows "fs (snd (File_write t f w)) = (fs w)(qf_fileName f \<mapsto>
           Reg (if t = [] \<or> \<not> has_flag (qf_openMode f) WriteOnly then c
                else if has_flag (qf_openMode f) Append then c @ t
                else write_at c (nat (qf_pos f)) t) r wr)"
    and "qf_pos (fst (File_write t f w)) =
           (if t = [] \<or> \<not> has_flag (qf_openMode f) WriteOnly then qf_pos f else qf_pos f + int (length t))"
    and "qf_fileName (fst (File_write t f w)) = qf_fileName f"
    and "qf_openMode (fst (File_write t f w)) = qf_openMode f"
  using assms by (auto simp: File_write_def QTextStream_write_def map_upd_triv Let_def)

lemma File_read_text:
  assumes "fs w (qf_fileName f) = Some (Reg c r wr)" and "has_flag (qf_openMode f) Text"
  shows "fst (File_read f w) =
           (if has_flag (qf_openMode f) ReadOnly then strip_CR (drop (nat (qf_pos f)) c) else [])"
  using assms by (simp add: File_read_def QTextStream_readAll_def Let_def)

lemma File_seek_fields [simp]:
  "qf_fileName (File_seek n f) = qf_fileName f"
  "qf_openMode (File_seek n f) = qf_openMode f"
  "qf_pos (File_seek n f) = (if QFile_isOpen f \<and> 0 \<le> n then n else qf_pos f)"
  by (simp_all add: File_seek_def QFile_seek_def)

subsection \<open>Properties of an opened handle\<close>

text \<open>
  C7. After a successful \<open>File::open\<close> the handle is open on the named
  file; \<open>write\<close> and \<open>writeplus\<close> have emptied the file and the other modes
  keep its content; \<open>tell()\<close> is 0, or the length of the file for \<open>append\<close>
  and \<open>appendplus\<close>; no other path changes; and the handle holds one
  descriptor more than after closing the file it had open before.
\<close>

theorem File_open_NoError:
  assumes "File_open p (OpenMode_val m) f w = (NoError, f', w')"
  shows "qf_fileName f' = p \<and> QFile_isOpen f' \<and>
    file_text w' p = (if m \<in> {write, writeplus} then [] else file_text w p) \<and>
    File_tell f' = (if m \<in> {append, appendplus} then int (length (file_text w p)) else 0) \<and>
    (\<forall>q. q \<noteq> p \<longrightarrow> fs w' q = fs w q) \<and>
    open_fds w' = Suc (open_fds (snd (QFile_close f w)))"
proof -
  obtain up: "QDir_cdUp p w"
    and po: "posix_open p (engine_mode (device_mode m)) (snd (QFile_close f w)) = Some w'"
    and fdef: "f' = (fst (QFile_close f w))\<lparr>qf_fileName := p, qf_openMode := device_mode m,
           qf_pos := if m \<in> {append, appendplus} then int (length (file_text w' p)) else 0\<rparr>"
    using File_open_NoE [OF assms] by blast
  have ftxt: "file_text w' p = (if m \<in> {write, writeplus} then [] else file_text w p)"
    using posix_open_text [OF po] by (simp add: file_text_def)
  show ?thesis
    using ftxt fdef posix_open_frame [OF po] posix_open_fds [OF po]
    by (auto simp: File_tell_def)
qed

theorem File_open_NoError_witness:
  "File_open [''cfg'', ''a.json''] (OpenMode_val append) File_new demo_world = (NoError, fst (snd (File_open [''cfg'', ''a.json''] (OpenMode_val append) File_new demo_world)), snd (snd (File_open [''cfg'', ''a.json''] (OpenMode_val append) File_new demo_world))) \<and>
   File_tell (fst (snd (File_open [''cfg'', ''a.json''] (OpenMode_val append) File_new demo_world))) = 2"
proof -
  have h: "File_open [''cfg'', ''a.json''] (OpenMode_val append) File_new demo_world = (NoError, fst (snd (File_open [''cfg'', ''a.json''] (OpenMode_val append) File_new demo_world)), snd (snd (File_open [''cfg'', ''a.json''] (OpenMode_val append) File_new demo_world)))"
    by (simp add: demo_world_def File_open_def File_ioMode_def QFile_open_def QFile_setFileName_def QFile_close_def QFile_isOpen_def QFile_size_def File_new_def QFile_new_def posix_open_def engine_mode_def has_flag_def QDir_cdUp_def file_text_def Let_def)
  show ?thesis using h File_open_NoError [OF h] by (simp add: demo_world_def file_text_def)
qed

text \<open>
  C8. In \<open>append\<close> and \<open>appendplus\<close> mode a write goes to the end of the
  file whatever position an earlier \<open>seek\<close> chose: the file holds its old
  content followed by the text.
\<close>

theorem File_append_after_seek:
  assumes "File_open p (OpenMode_val m) f w = (NoError, f1, w1)" and "m \<in> {append, appendplus}"
  shows "file_text (snd (File_write t (File_seek n f1) w1)) p = file_text w p @ t"
proof -
  obtain po: "posix_open p (engine_mode (device_mode m)) (snd (QFile_close f w)) = Some w1"
    and f1def: "f1 = (fst (QFile_close f w))\<lparr>qf_fileName := p, qf_openMode := device_mode m,
           qf_pos := if m \<in> {append, appendplus} then int (length (file_text w1 p)) else 0\<rparr>"
    using File_open_NoE [OF assms(1)] by blast
  obtain c r wr where reg: "fs w1 p = Some (Reg c r wr)"
    using posix_open_Reg [OF po] by blast
  have c: "c = file_text w p"
    using posix_open_text [OF po] reg assms(2) by (auto simp: file_text_def)
  show ?thesis
    using File_write_text(1) [of w1 "File_seek n f1" c r wr t] reg c f1def assms(2)
    by (auto simp: file_text_def)
qed

theorem File_append_after_seek_witness:
  "File_open [''cfg'', ''a.json''] (OpenMode_val append) File_new demo_world = (NoError, fst (snd (File_open [''cfg'', ''a.json''] (OpenMode_val append) File_new demo_world)), snd (snd (File_open [''cfg'', ''a.json''] (OpenMode_val append) File_new demo_world))) \<and> append \<in> {append, appendplus} \<and>
   file_text (snd (File_write ''x'' (File_seek 0 (fst (snd (File_open [''cfg'', ''a.json''] (OpenMode_val append) File_new demo_world)))) (snd (snd (File_open [''cfg'', ''a.json''] (OpenMode_val append) File_new demo_world)))))
     [''cfg'', ''a.json''] = ''{}x''"
proof -
  have h1: "File_open [''cfg'', ''a.json''] (OpenMode_val append) File_new demo_world = (NoError, fst (snd (File_open [''cfg'', ''a.json''] (OpenMode_val append) File_new demo_world)), snd (snd (File_open [''cfg'', ''a.json''] (OpenMode_val append) File_new demo_world)))"
    by (simp add: demo_world_def File_open_def File_ioMode_def QFile_open_def QFile_setFileName_def QFile_close_def QFile_isOpen_def QFile_size_def File_new_def QFile_new_def posix_open_def engine_mode_def has_flag_def QDir_cdUp_def file_text_def Let_def)
  have h2: "append \<in> {append, appendplus}" by simp
  show ?thesis using h1 h2 File_append_after_seek [OF h1 h2, of "''x''" 0]
    by (simp add: demo_world_def file_text_def)
qed

text \<open>
  C9. Round trip on one handle: after opening in \<open>writeplus\<close>, writing a
  text, seeking to 0 and reading gives the text back without its carriage
  returns (the device is opened in text mode).
\<close>

theorem File_writeplus_roundtrip:
  assumes "File_open p (OpenMode_val writeplus) f w = (NoError, f1, w1)"
  shows "fst (File_read (File_seek 0 (fst (File_write t f1 w1))) (snd (File_write t f1 w1))) = strip_CR t"
proof -
  obtain po: "posix_open p (engine_mode (device_mode writeplus)) (snd (QFile_close f w)) = Some w1"
    and f1def: "f1 = (fst (QFile_close f w))\<lparr>qf_fileName := p, qf_openMode := device_mode writeplus,
           qf_pos := 0\<rparr>"
    using File_open_NoE [OF assms] by auto
  obtain c r wr where reg: "fs w1 p = Some (Reg c r wr)"
    using posix_open_Reg [OF po] by blast
  have c: "c = []"
    using posix_open_text [OF po] reg by (simp add: file_text_def)
  let ?f2 = "fst (File_write t f1 w1)" and ?w2 = "snd (File_write t f1 w1)"
  have w2: "fs ?w2 p = Some (Reg t r wr)"
    using File_write_text(1) [of w1 f1 c r wr t] reg c f1def by auto
  have f2: "qf_fileName ?f2 = p" "qf_openMode ?f2 = device_mode writeplus"
    using File_write_text(3,4) [of w1 f1 c r wr t] reg f1def by auto
  show ?thesis
    using File_read_text [of ?w2 "File_seek 0 ?f2" t r wr] w2 f2
    by (simp add: QFile_isOpen_def)
qed

theorem File_writeplus_roundtrip_witness:
  "File_open [''cfg'', ''a.json''] (OpenMode_val writeplus) File_new demo_world = (NoError, fst (snd (File_open [''cfg'', ''a.json''] (OpenMode_val writeplus) File_new demo_world)), snd (snd (File_open [''cfg'', ''a.json''] (OpenMode_val writeplus) File_new demo_world))) \<and>
   fst (File_read (File_seek 0 (fst (File_write ''a\<newline>b'' (fst (snd (File_open [''cfg'', ''a.json''] (OpenMode_val writeplus) File_new demo_world))) (snd (snd (File_open [''cfg'', ''a.json''] (OpenMode_val writeplus) File_new demo_world))))))
        (snd (File_write ''a\<newline>b'' (fst (snd (File_open [''cfg'', ''a.json''] (OpenMode_val writeplus) File_new demo_world))) (snd (snd (File_open [''cfg'', ''a.json''] (OpenMode_val writeplus) File_new demo_world)))))) = ''a\<newline>b''"
proof -
  have h: "File_open [''cfg'', ''a.json''] (OpenMode_val writeplus) File_new demo_world = (NoError, fst (snd (File_open [''cfg'', ''a.json''] (OpenMode_val writeplus) File_new demo_world)), snd (snd (File_open [''cfg'', ''a.json''] (OpenMode_val writeplus) File_new demo_world)))"
    by (simp add: demo_world_def File_open_def File_ioMode_def QFile_open_def QFile_setFileName_def QFile_close_def QFile_isOpen_def QFile_size_def File_new_def QFile_new_def posix_open_def engine_mode_def has_flag_def QDir_cdUp_def file_text_def Let_def)
  show ?thesis using h File_writeplus_roundtrip [OF h, of "''a\<newline>b''"] by simp
qed

text \<open>
  C10. \<open>read()\<close> on a handle open in one of the six modes on a regular
  file: nothing in \<open>write\<close> and \<open>append\<close> mode, otherwise the file from
  the position \<open>tell()\<close> to its end, without carriage returns.
\<close>

theorem File_read_result:
  assumes "qf_openMode f = device_mode m" and "fs w (qf_fileName f) = Some (Reg c r wr)"
  shows "fst (File_read f w) = (if m \<in> {write, append} then [] else strip_CR (drop (nat (File_tell f)) c))"
  using File_read_text [OF assms(2)] assms(1) by (simp add: File_tell_def)

theorem File_read_result_witness:
  "qf_openMode (\<lparr>qf_fileName = [''cfg'', ''a.json''], qf_openMode = device_mode readplus, qf_pos = 1\<rparr>) = device_mode readplus \<and>
   fs demo_world (qf_fileName (\<lparr>qf_fileName = [''cfg'', ''a.json''], qf_openMode = device_mode readplus, qf_pos = 1\<rparr>)) = Some (Reg ''{}'' True True) \<and>
   fst (File_read (\<lparr>qf_fileName = [''cfg'', ''a.json''], qf_openMode = device_mode readplus, qf_pos = 1\<rparr>) demo_world) = ''}''"
proof -
  have h1: "qf_openMode (\<lparr>qf_fileName = [''cfg'', ''a.json''], qf_openMode = device_mode readplus, qf_pos = 1\<rparr>) = device_mode readplus" by simp
  have h2: "fs demo_world (qf_fileName (\<lparr>qf_fileName = [''cfg'', ''a.json''], qf_openMode = device_mode readplus, qf_pos = 1\<rparr>)) = Some (Reg ''{}'' True True)"
    by (simp add: demo_world_def)
  show ?thesis using h1 h2 File_read_result [OF h1 h2] by (simp add: File_tell_def)
qed

text \<open>
  C11. \<open>write(text)\<close> on a handle open in one of the six modes on a
  regular file: nothing for an empty text or in \<open>read\<close> mode; appended at
  the end in the two appending modes; otherwise written at the position,
  overwriting and extending the file. The position advances by the length
  written.
\<close>

theorem File_write_result:
  assumes "qf_openMode f = device_mode m" and "fs w (qf_fileName f) = Some (Reg c r wr)"
  shows "file_text (snd (File_write t f w)) (qf_fileName f) =
           (if t = [] \<or> m = read then c
            else if m \<in> {append, appendplus} then c @ t else write_at c (nat (File_tell f)) t)
       \<and> File_tell (fst (File_write t f w)) =
           (if t = [] \<or> m = read then File_tell f else File_tell f + int (length t))"
  using File_write_text(1,2) [OF assms(2), of t] assms(1) by (simp add: file_text_def File_tell_def)

theorem File_write_result_witness:
  "qf_openMode (\<lparr>qf_fileName = [''cfg'', ''a.json''], qf_openMode = device_mode readplus, qf_pos = 1\<rparr>) = device_mode readplus \<and>
   fs demo_world (qf_fileName (\<lparr>qf_fileName = [''cfg'', ''a.json''], qf_openMode = device_mode readplus, qf_pos = 1\<rparr>)) = Some (Reg ''{}'' True True) \<and>
   file_text (snd (File_write ''xyz'' (\<lparr>qf_fileName = [''cfg'', ''a.json''], qf_openMode = device_mode readplus, qf_pos = 1\<rparr>) demo_world)) [''cfg'', ''a.json''] = ''{xyz''"
proof -
  have h1: "qf_openMode (\<lparr>qf_fileName = [''cfg'', ''a.json''], qf_openMode = device_mode readplus, qf_pos = 1\<rparr>) = device_mode readplus" by simp
  have h2: "fs demo_world (qf_fileName (\<lparr>qf_fileName = [''cfg'', ''a.json''], qf_openMode = device_mode readplus, qf_pos = 1\<rparr>)) = Some (Reg ''{}'' True True)"
    by (simp add: demo_world_def)
  show ?thesis using h1 h2 File_write_result [OF h1 h2, of "''xyz''"]
    by (simp add: File_tell_def write_at_def)
qed

text \<open>
  C12. On a closed handle \<open>read()\<close> returns nothing and \<open>write\<close>,
  \<open>seek\<close> and \<open>close\<close> change nothing: every failure is silent.
\<close>

theorem File_closed_noop:
  assumes "\<not> QFile_isOpen f"
  shows "File_read f w = ([], f) \<and> File_write t f w = (f, w) \<and> File_seek n f = f \<and>
         File_close f w = (f, w)"
  using assms
  by (simp add: QFile_isOpen_def File_read_def QTextStream_readAll_def File_write_def
      QTextStream_write_def File_seek_def QFile_seek_def File_close_def QFile_close_def)

theorem File_closed_noop_witness:
  "\<not> QFile_isOpen File_new \<and> File_read File_new demo_world = ([], File_new)"
proof -
  have h: "\<not> QFile_isOpen File_new" by simp
  show ?thesis using h File_closed_noop [OF h, of demo_world "''x''" 3] by simp
qed

text \<open>
  C13. A failed \<open>File::open\<close> leaves the handle closed and renamed: a
  handle that was open on another file loses that file (\<open>setFileName\<close>
  closes it before the new open is tried), and the file system is unchanged.
\<close>

theorem File_open_fail_closes:
  assumes "File_open p v f w = (FailOpenFile, f', w')"
  shows "\<not> QFile_isOpen f' \<and> qf_fileName f' = p \<and> fs w' = fs w \<and>
         open_fds w' = (if QFile_isOpen f then open_fds w - 1 else open_fds w)"
proof -
  have up: "QDir_cdUp p w" and io: "File_ioMode v \<noteq> None"
    using assms by (auto simp: File_open_def split: if_splits option.splits)
  obtain m where v: "v = OpenMode_val m" using io File_ioMode_Some by blast
  show ?thesis
    using assms by (auto simp: v File_open_valid [OF up] Let_def split: option.splits)
qed

theorem File_open_fail_closes_witness:
  "File_open [''cfg'', ''ro.json''] (OpenMode_val write) File_new demo_world = (FailOpenFile, fst (snd (File_open [''cfg'', ''ro.json''] (OpenMode_val write) File_new demo_world)), snd (snd (File_open [''cfg'', ''ro.json''] (OpenMode_val write) File_new demo_world))) \<and>
   \<not> QFile_isOpen (fst (snd (File_open [''cfg'', ''ro.json''] (OpenMode_val write) File_new demo_world)))"
proof -
  have h: "File_open [''cfg'', ''ro.json''] (OpenMode_val write) File_new demo_world = (FailOpenFile, fst (snd (File_open [''cfg'', ''ro.json''] (OpenMode_val write) File_new demo_world)), snd (snd (File_open [''cfg'', ''ro.json''] (OpenMode_val write) File_new demo_world)))"
    by (simp add: demo_world_def File_open_def File_ioMode_def QFile_open_def QFile_setFileName_def QFile_close_def QFile_isOpen_def QFile_size_def File_new_def QFile_new_def posix_open_def engine_mode_def has_flag_def QDir_cdUp_def file_text_def Let_def)
  show ?thesis using h File_open_fail_closes [OF h] by simp
qed

text \<open>
  C18. No leak: whatever sequence of calls a handle went through, destroying
  it (\<open>~File\<close>, which closes the \<open>QFile\<close>) brings the descriptor count back
  to its value before the handle was created, and leaves the files as they are.
\<close>

theorem File_delete_no_leak:
  assumes "File_reach w0 (f, w)" and "wf_fs w0"
  shows "open_fds (File_delete f w) = open_fds w0 \<and> fs (File_delete f w) = fs w"
proof -
  have "File_inv w0 f w" using File_reach_File_inv [OF assms] by simp
  then show ?thesis
    by (auto simp: File_inv_def File_delete_def QFile_close_def)
qed

theorem File_delete_no_leak_witness:
  "File_reach demo_world (File_step (OpWrite ''x'') (File_step (OpOpen [''cfg'', ''b.json''] 1) (File_new, demo_world))) \<and>
   wf_fs demo_world \<and>
   open_fds (File_delete (fst (File_step (OpWrite ''x'') (File_step (OpOpen [''cfg'', ''b.json''] 1) (File_new, demo_world))))
                         (snd (File_step (OpWrite ''x'') (File_step (OpOpen [''cfg'', ''b.json''] 1) (File_new, demo_world))))) = 0"
proof -
  have h1: "File_reach demo_world (File_step (OpWrite ''x'') (File_step (OpOpen [''cfg'', ''b.json''] 1) (File_new, demo_world)))"
    by (rule File_reach.step [OF File_reach.step [OF File_reach.start]])
  have h2: "wf_fs demo_world"
    by (auto simp: wf_fs_def demo_world_def)
  have "open_fds (File_delete (fst (File_step (OpWrite ''x'') (File_step (OpOpen [''cfg'', ''b.json''] 1) (File_new, demo_world))))
                         (snd (File_step (OpWrite ''x'') (File_step (OpOpen [''cfg'', ''b.json''] 1) (File_new, demo_world))))) =
        open_fds demo_world"
  proof -
    have h1': "File_reach demo_world
        (fst (File_step (OpWrite ''x'') (File_step (OpOpen [''cfg'', ''b.json''] 1) (File_new, demo_world))),
         snd (File_step (OpWrite ''x'') (File_step (OpOpen [''cfg'', ''b.json''] 1) (File_new, demo_world))))"
      using h1 by simp
    show ?thesis using File_delete_no_leak [OF h1' h2] by simp
  qed
  then show ?thesis using h1 h2 by (simp add: demo_world_def)
qed

text \<open>
  C19. \<open>seek\<close> then \<open>tell\<close> on an open handle: a non-negative position is
  taken as it is, also beyond the end of the file; a negative one is refused
  and the position stays where it was.
\<close>

theorem File_seek_tell:
  assumes "QFile_isOpen f"
  shows "File_tell (File_seek n f) = (if 0 \<le> n then n else File_tell f)"
  using assms by (simp add: File_tell_def File_seek_def QFile_seek_def)

theorem File_seek_tell_witness:
  "QFile_isOpen (File_new\<lparr>qf_openMode := device_mode read\<rparr>) \<and>
   File_tell (File_seek 7 (File_new\<lparr>qf_openMode := device_mode read\<rparr>)) = 7 \<and>
   File_tell (File_seek (-1) (File_new\<lparr>qf_openMode := device_mode read\<rparr>)) = 0"
proof -
  have h: "QFile_isOpen (File_new\<lparr>qf_openMode := device_mode read\<rparr>)"
    by (simp add: QFile_isOpen_def device_mode.simps)
  show ?thesis
    using h File_seek_tell [OF h, of 7] File_seek_tell [OF h, of "-1"]
    by (simp add: File_tell_def)
qed

end
