(* ===== verification/JncJson.thy ===== *)
theory JncJson
  imports JncFile
begin

text \<open>
  \<open>jnc::Json\<close> (src/Qt/Json.h, src/Qt/Json.cpp): \<open>dump\<close> and \<open>load\<close>, each
  constructing a local \<open>jnc::File\<close>, opening it, doing one write or one read,
  closing it, and destroying it on every return path. \<open>QJsonDocument\<close> is kept
  abstract: the type variable \<open>'d\<close> with a codec record naming the three
  members the code uses (\<open>toJson()\<close>, \<open>QJsonDocument::fromJson\<close> and the
  default-constructed document \<open>QJsonDocument{}\<close>). The theorems about the
  round trip state what they need of the codec as a hypothesis.
\<close>

record 'd JsonCodec =
  toJson :: "'d \<Rightarrow> string"
  fromJson :: "string \<Rightarrow> 'd"
  nullDoc :: 'd

definition Json_dump :: "'d JsonCodec \<Rightarrow> path \<Rightarrow> 'd \<Rightarrow> world \<Rightarrow> world" where
  [jnc_defs]: "Json_dump J fileName jsonDoc w =
     (let file = File_new;
          (err, file, w) = File_open fileName (OpenMode_val write) file w
      in if err \<noteq> NoError then File_delete file w
         else
           let (file, w) = File_write (toJson J jsonDoc) file w;
               (file, w) = File_close file w
           in File_delete file w)"

definition Json_load :: "'d JsonCodec \<Rightarrow> path \<Rightarrow> world \<Rightarrow> 'd \<times> world" where
  [jnc_defs]: "Json_load J fileName w =
     (let file = File_new;
          (err, file, w) = File_open fileName (OpenMode_val read) file w
      in if err \<noteq> NoError then (nullDoc J, File_delete file w)
         else
           let (data, file) = File_read file w;
               (file, w) = File_close file w
           in (if data \<noteq> [] then fromJson J data else nullDoc J, File_delete file w))"

text \<open>
  The class itself (Json.h): its constructor is deleted, so it has no
  objects and no state; what it offers is its two static members, here a
  record of functions that the interleaving model of \<open>Interleave\<close> calls
  through.
\<close>

record 'd JsonApi =
  dump :: "path \<Rightarrow> 'd \<Rightarrow> world \<Rightarrow> world"
  load :: "path \<Rightarrow> world \<Rightarrow> 'd \<times> world"

definition Json :: "'d JsonCodec \<Rightarrow> 'd JsonApi" where
  [jnc_defs]: "Json J = \<lparr>dump = Json_dump J, load = Json_load J\<rparr>"

subsection \<open>Specification helpers\<close>

text \<open>
  When \<open>dump\<close> gets past \<open>File::open\<close> in \<open>write\<close> mode (a parent
  directory, and a missing or writable regular file), the node it leaves, and
  when \<open>load\<close> gets past \<open>File::open\<close> in \<open>read\<close> mode.
\<close>

definition dump_succeeds :: "world \<Rightarrow> path \<Rightarrow> bool" where
  "dump_succeeds w p \<longleftrightarrow> QDir_cdUp p w \<and>
     (case fs w p of None \<Rightarrow> True | Some Dir \<Rightarrow> False | Some (Reg c r wr) \<Rightarrow> wr)"

definition dumped_node :: "world \<Rightarrow> path \<Rightarrow> string \<Rightarrow> node" where
  "dumped_node w p t = (case fs w p of Some (Reg c r wr) \<Rightarrow> Reg t r wr | _ \<Rightarrow> Reg t True True)"

definition load_succeeds :: "world \<Rightarrow> path \<Rightarrow> bool" where
  "load_succeeds w p \<longleftrightarrow> QDir_cdUp p w \<and>
     (case fs w p of Some (Reg c r wr) \<Rightarrow> r | _ \<Rightarrow> False)"

text \<open>
  What the round trip needs of \<open>QJsonDocument\<close> for one document: its text
  has no carriage return (a text-mode read drops them), and parsing the text
  gives the document back, where an empty text stands for the default document
  (Qt's \<open>toJson()\<close> of a null document is empty).
\<close>

definition codec_roundtrips :: "'d JsonCodec \<Rightarrow> 'd \<Rightarrow> bool" where
  "codec_roundtrips J d \<longleftrightarrow> CR \<notin> set (toJson J d) \<and>
     (if toJson J d = [] then d = nullDoc J else fromJson J (toJson J d) = d)"

text \<open>
  The abstract view of the files as a JSON store: the document \<open>load\<close> returns
  for each path.
\<close>

definition stored_doc :: "'d JsonCodec \<Rightarrow> world \<Rightarrow> path \<Rightarrow> 'd" where
  "stored_doc J w p = fst (Json_load J p w)"

text \<open>A codec for the witnesses: a document given by its own text.\<close>

definition demo_codec :: "string JsonCodec" where
  "demo_codec = \<lparr>toJson = id, fromJson = id, nullDoc = []\<rparr>"

subsection \<open>dump and load in closed form\<close>

lemma Json_dump_eq:
  "Json_dump J p d w =
     (if dump_succeeds w p then w\<lparr>fs := (fs w)(p \<mapsto> dumped_node w p (toJson J d))\<rparr> else w)"
proof (cases "QDir_cdUp p w")
  case True
  then show ?thesis
    by (simp only: Json_dump_def File_open_valid [OF True])
      (auto simp: dump_succeeds_def dumped_node_def device_mode.simps
        posix_open_def engine_mode_def has_flag_def File_write_def File_close_def File_delete_def
        QTextStream_write_def QFile_close_def QFile_isOpen_def QDir_cdUp_def file_text_def Let_def
        map_upd_triv split: option.splits node.splits)
next
  case False
  then show ?thesis
    by (simp add: Json_dump_def File_open_def dump_succeeds_def)
qed

lemma Json_load_eq:
  "Json_load J p w =
     (if load_succeeds w p \<and> strip_CR (file_text w p) \<noteq> [] then fromJson J (strip_CR (file_text w p))
      else nullDoc J, w)"
proof (cases "QDir_cdUp p w")
  case True
  then show ?thesis
    by (simp only: Json_load_def File_open_valid [OF True])
      (auto simp: load_succeeds_def device_mode.simps
        posix_open_def engine_mode_def has_flag_def File_read_def File_close_def File_delete_def
        QTextStream_readAll_def QFile_close_def QFile_isOpen_def QDir_cdUp_def file_text_def Let_def
        map_upd_triv split: option.splits node.splits)
next
  case False
  then show ?thesis
    by (simp add: Json_load_def File_open_def load_succeeds_def)
qed

text \<open>
  Writing a file never makes it or its neighbours a directory, so whether
  \<open>load\<close> of any path gets past \<open>File::open\<close> changes only at the written
  path itself.
\<close>

lemma QDir_cdUp_dump:
  assumes "fs w p \<noteq> Some Dir"
  shows "QDir_cdUp q (w\<lparr>fs := (fs w)(p \<mapsto> Reg t r wr)\<rparr>) = QDir_cdUp q w"
  using assms by (auto simp: QDir_cdUp_def)

lemma load_after_dump:
  assumes "dump_succeeds w p"
  shows "stored_doc J (Json_dump J p d w) q =
     (if q = p then (if readable (dumped_node w p (toJson J d)) \<and> strip_CR (toJson J d) \<noteq> []
                     then fromJson J (strip_CR (toJson J d)) else nullDoc J)
      else stored_doc J w q)"
proof -
  have nd: "fs w p \<noteq> Some Dir" using assms by (auto simp: dump_succeeds_def)
  have up: "QDir_cdUp p w" using assms by (simp add: dump_succeeds_def)
  show ?thesis
    using nd up
    by (auto simp: stored_doc_def Json_load_eq Json_dump_eq assms QDir_cdUp_dump load_succeeds_def
        file_text_def dumped_node_def split: option.splits node.splits)
qed

lemma dump_succeeds_wf:
  assumes "wf_fs w" and "dump_succeeds w p"
  shows "wf_fs (w\<lparr>fs := (fs w)(p \<mapsto> dumped_node w p t)\<rparr>)"
proof -
  have "p \<noteq> []" "fs w (butlast p) = Some Dir" "fs w p \<noteq> Some Dir"
    using assms(2) by (auto simp: dump_succeeds_def QDir_cdUp_def)
  then show ?thesis
    using wf_fs_put_Reg [OF assms(1)]
    by (auto simp: dumped_node_def split: option.splits node.splits)
qed

subsection \<open>Properties of dump and load\<close>

text \<open>
  C1. Refinement: seen through \<open>load\<close>, the files form a store of documents
  indexed by path, and \<open>dump(p, d)\<close> into an existing directory, onto a
  missing or readable and writable file, of a document the codec round-trips,
  is the update of that store at \<open>p\<close> with \<open>d\<close>: every other path still loads what it
  loaded before.
\<close>

theorem Json_dump_refines_store:
  assumes "QDir_cdUp p w"
    and "fs w p = None \<or> (\<exists>c. fs w p = Some (Reg c True True))"
    and "codec_roundtrips J d"
  shows "stored_doc J (Json_dump J p d w) = (stored_doc J w)(p := d)"
proof
  fix q
  have ok: "dump_succeeds w p" using assms(1,2) by (auto simp: dump_succeeds_def)
  have rd: "readable (dumped_node w p (toJson J d))"
    using assms(2) by (auto simp: dumped_node_def)
  show "stored_doc J (Json_dump J p d w) q = ((stored_doc J w)(p := d)) q"
    using load_after_dump [OF ok, of J d q] rd assms(3)
    by (auto simp: codec_roundtrips_def split: if_splits)
qed

theorem Json_dump_refines_store_witness:
  "QDir_cdUp [''cfg'', ''new.json''] demo_world \<and>
   (fs demo_world [''cfg'', ''new.json''] = None \<or>
      (\<exists>c. fs demo_world [''cfg'', ''new.json''] = Some (Reg c True True))) \<and>
   codec_roundtrips demo_codec ''{}'' \<and>
   stored_doc demo_codec (Json_dump demo_codec [''cfg'', ''new.json''] ''{}'' demo_world) =
     (stored_doc demo_codec demo_world)([''cfg'', ''new.json''] := ''{}'')"
proof -
  have h1: "QDir_cdUp [''cfg'', ''new.json''] demo_world"
    by (simp add: QDir_cdUp_def demo_world_def)
  have h2: "fs demo_world [''cfg'', ''new.json''] = None \<or>
      (\<exists>c. fs demo_world [''cfg'', ''new.json''] = Some (Reg c True True))"
    by (simp add: demo_world_def)
  have h3: "codec_roundtrips demo_codec ''{}''"
    by (simp add: codec_roundtrips_def demo_codec_def)
  show ?thesis by (intro conjI h1 h2 h3 Json_dump_refines_store [OF h1 h2 h3])
qed

text \<open>
  C14. What \<open>load\<close> returns: when the file opens for reading and its text,
  with carriage returns dropped, is not empty, whatever \<open>fromJson\<close> makes of
  that text (also when it is only white space); the default document
  otherwise (no parent directory, a missing, unreadable or directory path, or
  an empty text).
\<close>

theorem Json_load_result:
  "fst (Json_load J p w) =
     (if QDir_cdUp p w \<and> (\<exists>c wr. fs w p = Some (Reg c True wr)) \<and> strip_CR (file_text w p) \<noteq> []
      then fromJson J (strip_CR (file_text w p)) else nullDoc J)"
  by (auto simp: Json_load_eq load_succeeds_def split: option.splits node.splits)

theorem Json_load_result_witness:
  "fst (Json_load demo_codec [''cfg'', ''a.json'']
          (demo_world\<lparr>fs := (fs demo_world)([''cfg'', ''a.json''] \<mapsto> Reg '' '' True True)\<rparr>)) = '' ''"
  using Json_load_result [of demo_codec "[''cfg'', ''a.json'']"
      "demo_world\<lparr>fs := (fs demo_world)([''cfg'', ''a.json''] \<mapsto> Reg '' '' True True)\<rparr>"]
  by (auto simp: QDir_cdUp_def demo_world_def file_text_def demo_codec_def)

text \<open>
  C15. \<open>load\<close> has no lasting effect: the file system and the descriptor
  count are as before, on every path (its local \<open>File\<close> is closed or
  destroyed before it returns, and reading never truncates or creates).
\<close>

theorem Json_load_no_effect: "snd (Json_load J p w) = w"
  by (simp add: Json_load_eq)

text \<open>
  C16. \<open>dump\<close> fails silently: without a parent directory, onto a directory or
  onto a file without write permission it returns with the world unchanged
  (no file created, no descriptor left open) and reports nothing.
\<close>

theorem Json_dump_silent_failure:
  assumes "\<not> QDir_cdUp p w \<or> fs w p = Some Dir \<or> (\<exists>c r. fs w p = Some (Reg c r False))"
  shows "Json_dump J p d w = w"
  using assms by (auto simp: Json_dump_eq dump_succeeds_def)

theorem Json_dump_silent_failure_witness:
  "fs demo_world [''cfg'', ''ro.json''] = Some (Reg ''[]'' True False) \<and>
   Json_dump demo_codec [''cfg'', ''ro.json''] ''{}'' demo_world = demo_world"
proof -
  have ro: "fs demo_world [''cfg'', ''ro.json''] = Some (Reg ''[]'' True False)"
    by (simp add: demo_world_def)
  have h: "\<not> QDir_cdUp [''cfg'', ''ro.json''] demo_world \<or> fs demo_world [''cfg'', ''ro.json''] = Some Dir \<or>
      (\<exists>c r. fs demo_world [''cfg'', ''ro.json''] = Some (Reg c r False))"
    using ro by blast
  show ?thesis by (intro conjI ro Json_dump_silent_failure [OF h])
qed

text \<open>
  C17. A successful \<open>dump\<close> leaves exactly the serialised document in the
  file (the \<open>write\<close> mode truncates what was there), changes no other path,
  and releases the descriptor it used.
\<close>

theorem Json_dump_effect:
  assumes "QDir_cdUp p w" and "fs w p = None \<or> (\<exists>c r. fs w p = Some (Reg c r True))"
  shows "file_text (Json_dump J p d w) p = toJson J d \<and>
         (\<forall>q. q \<noteq> p \<longrightarrow> fs (Json_dump J p d w) q = fs w q) \<and>
         open_fds (Json_dump J p d w) = open_fds w"
proof -
  have "dump_succeeds w p" using assms by (auto simp: dump_succeeds_def)
  then show ?thesis
    by (auto simp: Json_dump_eq file_text_def dumped_node_def split: option.splits node.splits)
qed

theorem Json_dump_effect_witness:
  "QDir_cdUp [''cfg'', ''a.json''] demo_world \<and>
   (fs demo_world [''cfg'', ''a.json''] = None \<or> (\<exists>c r. fs demo_world [''cfg'', ''a.json''] = Some (Reg c r True))) \<and>
   file_text (Json_dump demo_codec [''cfg'', ''a.json''] ''[]'' demo_world) [''cfg'', ''a.json''] = ''[]''"
proof -
  have h1: "QDir_cdUp [''cfg'', ''a.json''] demo_world" by (simp add: QDir_cdUp_def demo_world_def)
  have h2: "fs demo_world [''cfg'', ''a.json''] = None \<or>
      (\<exists>c r. fs demo_world [''cfg'', ''a.json''] = Some (Reg c r True))"
    by (auto simp: demo_world_def)
  show ?thesis using h1 h2 Json_dump_effect [OF h1 h2, of demo_codec "''[]''"]
    by (simp add: demo_codec_def)
qed

end
