(* ===== verification/JsonStore.thy ===== *)
theory JsonStore
  imports JncJson
begin

text \<open>
  Sequences of \<open>Json::dump\<close> and \<open>Json::load\<close> calls, run on the world by
  the jnc code and on an abstract store that maps each path to a document.
  The simulation theorem says that, on paths where \<open>dump\<close> can open its file
  and for documents the codec round-trips, every \<open>load\<close> of the sequence
  returns what the abstract store holds at that moment: the last document
  dumped at the path, or what the path held at the start.
\<close>

datatype 'd JsonOp = JDump path 'd | JLoad path

text \<open>The concrete run: each call on the world, collecting what the loads return.\<close>

fun Json_run :: "'d JsonCodec \<Rightarrow> 'd JsonOp list \<Rightarrow> world \<Rightarrow> 'd list \<times> world" where
  "Json_run J [] w = ([], w)"
| "Json_run J (JDump p d # ops) w = Json_run J ops (Json_dump J p d w)"
| "Json_run J (JLoad p # ops) w =
     (let (d, w1) = Json_load J p w;
          (ds, w2) = Json_run J ops w1
      in (d # ds, w2))"

text \<open>The abstract run: a store updated by dumps and read by loads.\<close>

fun store_run :: "(path \<Rightarrow> 'd) \<Rightarrow> 'd JsonOp list \<Rightarrow> 'd list" where
  "store_run s [] = []"
| "store_run s (JDump p d # ops) = store_run (s(p := d)) ops"
| "store_run s (JLoad p # ops) = s p # store_run s ops"

primrec dumped_paths :: "'d JsonOp list \<Rightarrow> path set" where
  "dumped_paths [] = {}"
| "dumped_paths (op # ops) = (case op of JDump p d \<Rightarrow> insert p (dumped_paths ops) | JLoad p \<Rightarrow> dumped_paths ops)"

primrec dumped_docs :: "'d JsonOp list \<Rightarrow> 'd set" where
  "dumped_docs [] = {}"
| "dumped_docs (op # ops) = (case op of JDump p d \<Rightarrow> insert d (dumped_docs ops) | JLoad p \<Rightarrow> dumped_docs ops)"

definition good_run :: "'d JsonCodec \<Rightarrow> 'd JsonOp list \<Rightarrow> world \<Rightarrow> bool" where
  "good_run J ops w \<longleftrightarrow>
     (\<forall>p \<in> dumped_paths ops. dumpable w p) \<and> (\<forall>d \<in> dumped_docs ops. codec_roundtrips J d)"

subsection \<open>One dump on the store\<close>

lemma dumpable_succeeds: "dumpable w p \<Longrightarrow> dump_succeeds w p"
  by (auto simp: dumpable_def dump_succeeds_def split: option.splits node.splits)

lemma stored_doc_dump:
  assumes "dumpable w p" and "codec_roundtrips J d"
  shows "stored_doc J (Json_dump J p d w) = (stored_doc J w)(p := d)"
proof
  fix q
  have rd: "readable (dumped_node w p (toJson J d))"
    using assms(1) by (auto simp: dumpable_def dumped_node_def split: option.splits node.splits)
  show "stored_doc J (Json_dump J p d w) q = ((stored_doc J w)(p := d)) q"
    using load_after_dump [OF dumpable_succeeds [OF assms(1)], of J d q] rd assms(2)
    by (auto simp: codec_roundtrips_def split: if_splits)
qed

text \<open>A dump keeps every path dumpable: it writes a regular file and keeps its permissions.\<close>

lemma dumpable_dump:
  assumes "dumpable w p" and "dumpable w q"
  shows "dumpable (Json_dump J p d w) q"
proof -
  have nd: "fs w p \<noteq> Some Dir" using assms(1) by (auto simp: dumpable_def)
  show ?thesis
    using assms nd
    by (auto simp: Json_dump_eq dumpable_succeeds QDir_cdUp_dump dumpable_def dumped_node_def
        split: option.splits node.splits)
qed

lemma good_run_Cons_dump:
  "good_run J (JDump p d # ops) w \<Longrightarrow> good_run J ops (Json_dump J p d w) \<and> dumpable w p \<and> codec_roundtrips J d"
  by (auto simp: good_run_def dumpable_dump)

lemma good_run_Cons_load:
  "good_run J (JLoad p # ops) w \<Longrightarrow> good_run J ops w"
  by (simp add: good_run_def)

lemma Json_load_stored: "Json_load J p w = (stored_doc J w p, w)"
  by (simp add: stored_doc_def Json_load_eq)

text \<open>
  The simulation for a codec that gives back each dumped document \<open>d\<close> as
  \<open>n d\<close>: the loads return what the store returns when every dump stores
  \<open>n d\<close>.
\<close>

lemma Json_run_store_norm:
  assumes "\<forall>p \<in> dumped_paths ops. dumpable w p"
    and "\<forall>d \<in> dumped_docs ops. \<forall>w p. dumpable w p \<longrightarrow>
           stored_doc J (Json_dump J p d w) = (stored_doc J w)(p := n d)"
  shows "fst (Json_run J ops w) = store_run (stored_doc J w) (map (map_JsonOp n) ops)"
  using assms
proof (induction ops arbitrary: w)
  case Nil
  then show ?case by simp
next
  case (Cons op ops)
  show ?case
  proof (cases op)
    case (JDump p d)
    have dp: "dumpable w p" and dd: "\<forall>q \<in> dumped_paths ops. dumpable (Json_dump J p d w) q"
      using Cons.prems(1) JDump by (auto intro: dumpable_dump)
    have ins: "dumped_docs (op # ops) = insert d (dumped_docs ops)" using JDump by simp
    then have st: "stored_doc J (Json_dump J p d w) = (stored_doc J w)(p := n d)"
      using Cons.prems(2) dp unfolding ins by blast
    have dd2: "\<forall>d \<in> dumped_docs ops. \<forall>w p. dumpable w p \<longrightarrow>
           stored_doc J (Json_dump J p d w) = (stored_doc J w)(p := n d)"
      using Cons.prems(2) unfolding ins by blast
    show ?thesis
      by (simp only: JDump list.map JsonOp.map Json_run.simps store_run.simps st [symmetric] Cons.IH [OF dd dd2])
  next
    case (JLoad p)
    then show ?thesis using Cons.IH Cons.prems by (simp add: Json_load_stored case_prod_beta)
  qed
qed

subsection \<open>The simulation\<close>

text \<open>
  C20. Refinement of call sequences: for any sequence of \<open>dump\<close> and
  \<open>load\<close> calls whose dumps go to dumpable paths and carry documents the codec
  round-trips, the loads of the jnc code return exactly what the loads of the
  abstract store return, starting from the store the world defines.
\<close>

theorem Json_run_refines_store:
  assumes "good_run J ops w"
  shows "fst (Json_run J ops w) = store_run (stored_doc J w) ops"
  using assms
proof (induction ops arbitrary: w)
  case Nil
  then show ?case by simp
next
  case (Cons op ops)
  show ?case
  proof (cases op)
    case (JDump p d)
    have "good_run J (JDump p d # ops) w" using Cons.prems JDump by simp
    then have g: "good_run J ops (Json_dump J p d w)" and dp: "dumpable w p"
      and cr: "codec_roundtrips J d"
      by (blast dest: good_run_Cons_dump)+
    show ?thesis
      using Cons.IH [OF g] by (simp only: JDump Json_run.simps store_run.simps stored_doc_dump [OF dp cr])
  next
    case (JLoad p)
    have "good_run J (JLoad p # ops) w" using Cons.prems JLoad by simp
    then have g: "good_run J ops w" by (rule good_run_Cons_load)
    show ?thesis using Cons.IH [OF g] by (simp add: JLoad Json_load_stored case_prod_beta)
  qed
qed

theorem Json_run_refines_store_witness:
  "good_run demo_codec
     [JLoad [''cfg'', ''a.json''], JDump [''cfg'', ''a.json''] ''[1]'', JLoad [''cfg'', ''a.json''],
      JDump [''cfg'', ''new.json''] ''{}'', JLoad [''cfg'', ''new.json''], JLoad [''cfg'', ''ro.json'']]
     demo_world \<and>
   fst (Json_run demo_codec
     [JLoad [''cfg'', ''a.json''], JDump [''cfg'', ''a.json''] ''[1]'', JLoad [''cfg'', ''a.json''],
      JDump [''cfg'', ''new.json''] ''{}'', JLoad [''cfg'', ''new.json''], JLoad [''cfg'', ''ro.json'']]
     demo_world) = [''{}'', ''[1]'', ''{}'', ''[]'']"
proof -
  have g: "good_run demo_codec
     [JLoad [''cfg'', ''a.json''], JDump [''cfg'', ''a.json''] ''[1]'', JLoad [''cfg'', ''a.json''],
      JDump [''cfg'', ''new.json''] ''{}'', JLoad [''cfg'', ''new.json''], JLoad [''cfg'', ''ro.json'']]
     demo_world"
    by (simp add: good_run_def dumpable_def QDir_cdUp_def demo_world_def codec_roundtrips_def demo_codec_def)
  have "stored_doc demo_codec demo_world [''cfg'', ''a.json''] = ''{}''"
    and "stored_doc demo_codec demo_world [''cfg'', ''ro.json''] = ''[]''"
    by (simp_all add: stored_doc_def Json_load_eq load_succeeds_def QDir_cdUp_def demo_world_def
        file_text_def demo_codec_def)
  then show ?thesis using g Json_run_refines_store [OF g] by simp
qed

text \<open>
  C21. Any sequence of \<open>dump\<close> and \<open>load\<close> calls, on any paths and with any
  documents, keeps a well-formed file system well formed and ends with the
  descriptor count it started with: no call leaks the descriptor of its local
  \<open>File\<close>, whichever return path it takes.
\<close>

theorem Json_run_safe:
  assumes "wf_fs w"
  shows "wf_fs (snd (Json_run J ops w)) \<and> open_fds (snd (Json_run J ops w)) = open_fds w"
  using assms
proof (induction ops arbitrary: w)
  case Nil
  then show ?case by simp
next
  case (Cons op ops)
  show ?case
  proof (cases op)
    case (JDump p d)
    have "wf_fs (Json_dump J p d w)"
      using dump_succeeds_wf [OF Cons.prems] Cons.prems by (simp add: Json_dump_eq)
    moreover have "open_fds (Json_dump J p d w) = open_fds w"
      by (simp add: Json_dump_eq)
    ultimately show ?thesis using Cons.IH [of "Json_dump J p d w"] by (simp add: JDump)
  next
    case (JLoad p)
    then show ?thesis using Cons.IH [OF Cons.prems] by (simp add: Json_load_stored case_prod_beta)
  qed
qed

theorem Json_run_safe_witness:
  "wf_fs demo_world \<and>
   open_fds (snd (Json_run demo_codec
     [JDump [''cfg'', ''ro.json''] ''{}'', JDump [''tmp'', ''x.json''] ''{}'', JLoad [''cfg''],
      JDump [''cfg'', ''new.json''] ''[]'']
     demo_world)) = 0"
proof -
  have h: "wf_fs demo_world" by (auto simp: wf_fs_def demo_world_def)
  have "open_fds (snd (Json_run demo_codec
     [JDump [''cfg'', ''ro.json''] ''{}'', JDump [''tmp'', ''x.json''] ''{}'', JLoad [''cfg''],
      JDump [''cfg'', ''new.json''] ''[]'']
     demo_world)) = open_fds demo_world"
    using Json_run_safe [OF h] by blast
  then show ?thesis using h by (simp add: demo_world_def)
qed

end
