(* ===== verification/QJson.thy ===== *)
theory QJson
  imports Prelude "HOL-Library.Char_ord" "HOL-Library.List_Lexorder"
begin

text \<open>
  The two members of \<open>QJsonDocument\<close> that \<open>jnc::Json\<close> calls, modelled from
  Qt's writer and parser (qjsonwriter.cpp, qjsonparser.cpp), not from the
  repository: \<open>toJson()\<close> in its default \<open>Indented\<close> format and
  \<open>QJsonDocument::fromJson\<close>. A document is \<open>None\<close> (the null document) or a
  value that is an array or an object; object keys are kept sorted and
  distinct, as \<open>QJsonObject\<close> keeps them. Numbers are integers in the
  \<open>qint64\<close> range, which Qt writes and reads exactly; floating-point
  numbers are outside the model, and the parser yields \<open>None\<close> on them.
  Strings are byte strings, as everywhere in this development.
  The parser takes a fuel argument bounding the number of nested calls;
  \<open>fromJson\<close> gives it three units per input character (each array level
  costs three calls for one bracket), and the theory QJsonFuel shows that
  this never runs out.
\<close>

datatype jvalue = JNull | JBool bool | JInt int | JStr string
  | JArr "jvalue list" | JObj "(string \<times> jvalue) list"

type_synonym QJsonDocument = "jvalue option"

abbreviation NL :: char where "NL \<equiv> CHR 0x0A"
abbreviation QUOTE :: char where "QUOTE \<equiv> CHR 0x22"
abbreviation BSLASH :: char where "BSLASH \<equiv> CHR 0x5C"

text \<open>The parser's nesting limit (\<open>nestingLimit\<close> in qjsonparser.cpp).\<close>

abbreviation nestingLimit :: nat where "nestingLimit \<equiv> 1024"

subsection \<open>The writer\<close>

definition spaces :: "nat \<Rightarrow> string" where
  "spaces n = replicate (4 * n) (CHR '' '')"

definition hexdig :: "nat \<Rightarrow> char" where
  "hexdig n = (if n < 10 then char_of (48 + n) else char_of (87 + n))"

text \<open>\<open>escapedString\<close>: the quote, the backslash and the control characters.\<close>

definition escape_char :: "char \<Rightarrow> string" where
  "escape_char c =
     (if c = QUOTE then [BSLASH, QUOTE]
      else if c = BSLASH then [BSLASH, BSLASH]
      else if c = CHR 0x08 then [BSLASH, CHR ''b'']
      else if c = CHR 0x0C then [BSLASH, CHR ''f'']
      else if c = CHR 0x0A then [BSLASH, CHR ''n'']
      else if c = CHR 0x0D then [BSLASH, CHR ''r'']
      else if c = CHR 0x09 then [BSLASH, CHR ''t'']
      else if of_char c < (32::nat) then
        [BSLASH, CHR ''u'', CHR ''0'', CHR ''0'', hexdig (of_char c div 16), hexdig (of_char c mod 16)]
      else [c])"

definition escapedString :: "string \<Rightarrow> string" where
  "escapedString s = concat (map escape_char s)"

fun nat_digits :: "nat \<Rightarrow> string" where
  "nat_digits n = (if n < 10 then [char_of (48 + n)] else nat_digits (n div 10) @ [char_of (48 + n mod 10)])"

declare nat_digits.simps [simp del]

text \<open>\<open>QByteArray::number(qint64)\<close>.\<close>

definition int_str :: "int \<Rightarrow> string" where
  "int_str n = (if n < 0 then CHR ''-'' # nat_digits (nat (- n)) else nat_digits (nat n))"

text \<open>
  \<open>valueToJson\<close>, \<open>arrayContentToJson\<close> and \<open>objectContentToJson\<close> for the
  indented format: the content of a container one level deeper, each entry
  on its own line, and the closing bracket at the container's own indent.
\<close>

fun valueToJson :: "nat \<Rightarrow> jvalue \<Rightarrow> string"
and arrayContentToJson :: "nat \<Rightarrow> jvalue list \<Rightarrow> string"
and objectContentToJson :: "nat \<Rightarrow> (string \<times> jvalue) list \<Rightarrow> string" where
  "valueToJson i JNull = ''null''"
| "valueToJson i (JBool b) = (if b then ''true'' else ''false'')"
| "valueToJson i (JInt n) = int_str n"
| "valueToJson i (JStr s) = QUOTE # escapedString s @ [QUOTE]"
| "valueToJson i (JArr vs) = CHR ''['' # NL # arrayContentToJson (Suc i) vs @ spaces i @ '']''"
| "valueToJson i (JObj kvs) = CHR ''{'' # NL # objectContentToJson (Suc i) kvs @ spaces i @ ''}''"
| "arrayContentToJson i [] = []"
| "arrayContentToJson i (v # vs) =
     spaces i @ valueToJson i v @ (if vs = [] then [NL] else CHR '','' # NL # arrayContentToJson i vs)"
| "objectContentToJson i [] = []"
| "objectContentToJson i (kv # kvs) =
     spaces i @ QUOTE # escapedString (fst kv) @ QUOTE # CHR '':'' # CHR '' '' # valueToJson i (snd kv) @
     (if kvs = [] then [NL] else CHR '','' # NL # objectContentToJson i kvs)"

text \<open>\<open>QJsonDocument::toJson()\<close>: empty for the null document.\<close>

definition QJsonDocument_toJson :: "QJsonDocument \<Rightarrow> string" where
  "QJsonDocument_toJson d = (case d of None \<Rightarrow> [] | Some v \<Rightarrow> valueToJson 0 v @ [NL])"

subsection \<open>The parser\<close>

definition is_ws :: "char \<Rightarrow> bool" where
  "is_ws c \<longleftrightarrow> c = CHR '' '' \<or> c = CHR 0x09 \<or> c = CHR 0x0A \<or> c = CHR 0x0D"

text \<open>\<open>eatSpace\<close>.\<close>

definition eatSpace :: "string \<Rightarrow> string" where
  "eatSpace s = dropWhile is_ws s"

definition is_digit :: "char \<Rightarrow> bool" where
  "is_digit c \<longleftrightarrow> CHR ''0'' \<le> c \<and> c \<le> CHR ''9''"

definition digit_val :: "char \<Rightarrow> nat" where
  "digit_val c = of_char c - 48"

definition digits_val :: "string \<Rightarrow> nat" where
  "digits_val ds = foldl (\<lambda>a c. 10 * a + digit_val c) 0 ds"

definition hex_val :: "char \<Rightarrow> nat option" where
  "hex_val c =
     (if is_digit c then Some (digit_val c)
      else if CHR ''a'' \<le> c \<and> c \<le> CHR ''f'' then Some (of_char c - 87)
      else if CHR ''A'' \<le> c \<and> c \<le> CHR ''F'' then Some (of_char c - 55)
      else None)"

definition hex4 :: "string \<Rightarrow> nat option" where
  "hex4 s = (if length s < 4 then None
     else case those (map hex_val (take 4 s)) of
       None \<Rightarrow> None
     | Some hs \<Rightarrow> Some (foldl (\<lambda>a h. 16 * a + h) 0 hs))"

text \<open>The character of an escape sequence other than \<open>\u\<close>; any other character stands for itself.\<close>

definition unescape :: "char \<Rightarrow> char" where
  "unescape e =
     (if e = CHR ''b'' then CHR 0x08 else if e = CHR ''f'' then CHR 0x0C
      else if e = CHR ''n'' then CHR 0x0A else if e = CHR ''r'' then CHR 0x0D
      else if e = CHR ''t'' then CHR 0x09 else e)"

text \<open>
  \<open>parseString\<close>, after the opening quote: up to the closing quote, which may
  not end the input. A \<open>\u\<close> escape above 0xFF lies outside the byte string
  model.
\<close>

function parseString :: "string \<Rightarrow> (string \<times> string) option" where
  "parseString [] = None"
| "parseString (c # s) =
     (if c = QUOTE then (if s = [] then None else Some ([], s))
      else if c = BSLASH then
        (case s of
           [] \<Rightarrow> None
         | e # s' \<Rightarrow>
             if e = CHR ''u'' then
               (case hex4 s' of
                  None \<Rightarrow> None
                | Some n \<Rightarrow> if n < 256 then map_option (apfst (Cons (char_of n))) (parseString (drop 4 s'))
                           else None)
             else map_option (apfst (Cons (unescape e))) (parseString s'))
      else map_option (apfst (Cons c)) (parseString s))"
  by pat_completeness auto
termination by (relation "measure length") auto

text \<open>
  \<open>parseNumber\<close>: an optional minus, then \<open>0\<close> or a run of digits. An integer
  that \<open>toLongLong\<close> accepts is the value; a fraction or an exponent makes a
  floating-point number, outside the model.
\<close>

definition parseNumber :: "string \<Rightarrow> (jvalue \<times> string) option" where
  "parseNumber s =
     (let (neg, s1) = (case s of c # r \<Rightarrow> if c = CHR ''-'' then (True, r) else (False, s) | [] \<Rightarrow> (False, s));
          ds = (case s1 of c # r \<Rightarrow> if c = CHR ''0'' then [c] else takeWhile is_digit s1 | [] \<Rightarrow> []);
          r = drop (length ds) s1;
          n = (if neg then - int (digits_val ds) else int (digits_val ds))
      in if ds = [] then None
         else if r \<noteq> [] \<and> hd r \<in> {CHR ''.'', CHR ''e'', CHR ''E''} then None
         else if - (2 ^ 63) \<le> n \<and> n < 2 ^ 63 then Some (JInt n, r)
         else None)"

definition parseLiteral :: "string \<Rightarrow> jvalue \<Rightarrow> string \<Rightarrow> (jvalue \<times> string) option" where
  "parseLiteral lit v s = (if take (length lit) s = lit then Some (v, drop (length lit) s) else None)"

text \<open>
  \<open>parseValue\<close>, \<open>parseArray\<close> (after \<open>[\<close>) with the loop over its elements,
  and \<open>parseObject\<close> (after \<open>{\<close>) with the loop over its members, each
  member inserted into the sorted object as it is read. The second argument
  is the nesting level; the first is the fuel.
\<close>

fun obj_insert :: "string \<times> jvalue \<Rightarrow> (string \<times> jvalue) list \<Rightarrow> (string \<times> jvalue) list" where
  "obj_insert kv [] = [kv]"
| "obj_insert kv (kv' # kvs) =
     (if fst kv < fst kv' then kv # kv' # kvs
      else if fst kv = fst kv' then kv # kvs
      else kv' # obj_insert kv kvs)"

function (sequential) parseValue :: "nat \<Rightarrow> nat \<Rightarrow> string \<Rightarrow> (jvalue \<times> string) option"
and parseArray :: "nat \<Rightarrow> nat \<Rightarrow> string \<Rightarrow> (jvalue \<times> string) option"
and parseElements :: "nat \<Rightarrow> nat \<Rightarrow> string \<Rightarrow> (jvalue list \<times> string) option"
and parseObject :: "nat \<Rightarrow> nat \<Rightarrow> string \<Rightarrow> (jvalue \<times> string) option"
and parseMembers :: "nat \<Rightarrow> nat \<Rightarrow> (string \<times> jvalue) list \<Rightarrow> string \<Rightarrow> ((string \<times> jvalue) list \<times> string) option" where
  "parseValue 0 d s = None"
| "parseValue (Suc f) d s =
     (case s of
        [] \<Rightarrow> None
      | c # r \<Rightarrow>
          if c = CHR ''n'' then parseLiteral ''ull'' JNull r
          else if c = CHR ''t'' then parseLiteral ''rue'' (JBool True) r
          else if c = CHR ''f'' then parseLiteral ''alse'' (JBool False) r
          else if c = QUOTE then map_option (apfst JStr) (parseString r)
          else if c = CHR ''['' then parseArray f d r
          else if c = CHR ''{'' then parseObject f d r
          else if c \<in> {CHR '','', CHR '']'', CHR ''}''} then None
          else parseNumber s)"
| "parseArray 0 d s = None"
| "parseArray (Suc f) d s =
     (if nestingLimit < Suc d then None
      else case eatSpace s of
        [] \<Rightarrow> None
      | c # r \<Rightarrow> if c = CHR '']'' then Some (JArr [], r)
                 else map_option (apfst JArr) (parseElements f (Suc d) (c # r)))"
| "parseElements 0 d s = None"
| "parseElements (Suc f) d s =
     (case eatSpace s of
        [] \<Rightarrow> None
      | s1 \<Rightarrow>
          (case parseValue f d s1 of
             None \<Rightarrow> None
           | Some (v, r) \<Rightarrow>
               (case eatSpace r of
                  c # r1 \<Rightarrow>
                    if c = CHR '']'' then Some ([v], r1)
                    else if c = CHR '','' then map_option (apfst (Cons v)) (parseElements f d r1)
                    else None
                | [] \<Rightarrow> None)))"
| "parseObject 0 d s = None"
| "parseObject (Suc f) d s =
     (if nestingLimit < Suc d then None
      else case eatSpace s of
        [] \<Rightarrow> None
      | c # r \<Rightarrow> if c = CHR ''}'' then Some (JObj [], r)
                 else if c = QUOTE then map_option (apfst JObj) (parseMembers f (Suc d) [] r)
                 else None)"
| "parseMembers 0 d acc s = None"
| "parseMembers (Suc f) d acc s =
     (case parseString s of
        None \<Rightarrow> None
      | Some (k, r) \<Rightarrow>
          (case eatSpace r of
             c # r1 \<Rightarrow>
               if c \<noteq> CHR '':'' then None
               else (case eatSpace r1 of
                 [] \<Rightarrow> None
               | s2 \<Rightarrow>
                   (case parseValue f d s2 of
                      None \<Rightarrow> None
                    | Some (v, r2) \<Rightarrow>
                        (case eatSpace r2 of
                           c2 # r3 \<Rightarrow>
                             if c2 = CHR ''}'' then Some (obj_insert (k, v) acc, r3)
                             else if c2 = CHR '','' then
                               (case eatSpace r3 of
                                  c3 # r4 \<Rightarrow> if c3 = QUOTE then parseMembers f d (obj_insert (k, v) acc) r4 else None
                                | [] \<Rightarrow> None)
                             else None
                         | [] \<Rightarrow> None)))
           | [] \<Rightarrow> None))"
  by pat_completeness auto
termination
  by (relation "measure (case_sum (case_sum fst fst) (case_sum fst (case_sum fst fst)))") auto

text \<open>
  \<open>QJsonDocument::fromJson\<close>: an optional byte order mark, white space, an
  array or an object, white space, and nothing else; the null document on
  any error.
\<close>

definition eatBOM :: "string \<Rightarrow> string" where
  "eatBOM s = (if take 3 s = [CHR 0xEF, CHR 0xBB, CHR 0xBF] then drop 3 s else s)"

definition parseDocument :: "nat \<Rightarrow> string \<Rightarrow> QJsonDocument" where
  "parseDocument f s =
     (case eatSpace (eatBOM s) of
        c # r \<Rightarrow>
          (let res = (if c = CHR ''['' then parseArray f 0 r
                      else if c = CHR ''{'' then parseObject f 0 r else None)
           in case res of
                Some (v, r') \<Rightarrow> if eatSpace r' = [] then Some v else None
              | None \<Rightarrow> None)
      | [] \<Rightarrow> None)"

definition QJsonDocument_fromJson :: "string \<Rightarrow> QJsonDocument" where
  "QJsonDocument_fromJson s = parseDocument (3 * length s + 3) s"

subsection \<open>Well-formed documents\<close>

text \<open>
  The nesting depth of a value, and well-formedness: integers in the
  \<open>qint64\<close> range and object keys strictly sorted, as \<open>QJsonObject\<close> keeps
  them. A well-formed document is the null document or a well-formed array or
  object within the parser's nesting limit.
\<close>

fun jdepth :: "jvalue \<Rightarrow> nat"
and jdepths :: "jvalue list \<Rightarrow> nat"
and jdepthm :: "(string \<times> jvalue) list \<Rightarrow> nat" where
  "jdepth (JArr vs) = Suc (jdepths vs)"
| "jdepth (JObj kvs) = Suc (jdepthm kvs)"
| "jdepth _ = 0"
| "jdepths [] = 0"
| "jdepths (v # vs) = max (jdepth v) (jdepths vs)"
| "jdepthm [] = 0"
| "jdepthm (kv # kvs) = max (jdepth (snd kv)) (jdepthm kvs)"

fun wf_jv :: "jvalue \<Rightarrow> bool"
and wf_jvs :: "jvalue list \<Rightarrow> bool"
and wf_jvm :: "(string \<times> jvalue) list \<Rightarrow> bool" where
  "wf_jv (JInt n) \<longleftrightarrow> - (2 ^ 63) \<le> n \<and> n < 2 ^ 63"
| "wf_jv (JArr vs) \<longleftrightarrow> wf_jvs vs"
| "wf_jv (JObj kvs) \<longleftrightarrow> sorted_wrt (<) (map fst kvs) \<and> wf_jvm kvs"
| "wf_jv _ \<longleftrightarrow> True"
| "wf_jvs [] \<longleftrightarrow> True"
| "wf_jvs (v # vs) \<longleftrightarrow> wf_jv v \<and> wf_jvs vs"
| "wf_jvm [] \<longleftrightarrow> True"
| "wf_jvm (kv # kvs) \<longleftrightarrow> wf_jv (snd kv) \<and> wf_jvm kvs"

definition is_container :: "jvalue \<Rightarrow> bool" where
  "is_container v \<longleftrightarrow> (case v of JArr _ \<Rightarrow> True | JObj _ \<Rightarrow> True | _ \<Rightarrow> False)"

definition wf_doc :: "QJsonDocument \<Rightarrow> bool" where
  "wf_doc d \<longleftrightarrow> (case d of None \<Rightarrow> True
     | Some v \<Rightarrow> is_container v \<and> wf_jv v \<and> jdepth v \<le> nestingLimit)"

text \<open>What follows a value inside a container in the writer's output.\<close>

definition value_end :: "string \<Rightarrow> bool" where
  "value_end r \<longleftrightarrow> (\<exists>r'. r = CHR '','' # r' \<or> r = NL # r')"

end
