(* ===== verification/QJsonRoundtrip.thy ===== *)
theory QJsonRoundtrip
  imports QJson
begin

text \<open>
  The writer's output parses back: \<open>QJsonDocument::fromJson\<close> of
  \<open>toJson()\<close> gives every well-formed document back, with the fuel the
  model gives the parser. Numbers, strings, and then arrays and objects by a
  simultaneous induction over the three writer functions; the output of the
  writer holds no carriage return, and blank text parses to the null document.
\<close>

subsection \<open>The writer's output parses back\<close>

lemma eatSpace_Cons [simp]: "eatSpace (c # s) = (if is_ws c then eatSpace s else c # s)"
  by (simp add: eatSpace_def)

lemma eatSpace_Nil [simp]: "eatSpace [] = []"
  by (simp add: eatSpace_def)

lemma eatSpace_append_ws: "\<forall>c \<in> set w. is_ws c \<Longrightarrow> eatSpace (w @ s) = eatSpace s"
  by (induction w) auto

lemma eatSpace_idem [simp]: "eatSpace (eatSpace s) = eatSpace s"
  by (induction s) auto

lemma spaces_ws [simp]: "eatSpace (spaces n @ s) = eatSpace s"
  by (rule eatSpace_append_ws) (simp add: spaces_def is_ws_def)

lemma length_spaces [simp]: "length (spaces n) = 4 * n"
  by (simp add: spaces_def)

lemma is_ws_simps [simp]:
  "is_ws NL" "is_ws (CHR '' '')" "\<not> is_ws QUOTE" "\<not> is_ws CHR ''['' " "\<not> is_ws CHR '']''"
  "\<not> is_ws CHR ''{''" "\<not> is_ws CHR ''}''" "\<not> is_ws CHR '',''" "\<not> is_ws CHR '':''" "\<not> is_ws CHR ''-''"
  by (simp_all add: is_ws_def)

paragraph \<open>Numbers\<close>

lemma of_char_digit [simp]: "k < 10 \<Longrightarrow> of_char (char_of (48 + k) :: char) = (48 + k :: nat)"
  by (simp add: of_char_of)

lemma nat_digits_ne [simp]: "nat_digits n \<noteq> []"
  by (subst nat_digits.simps) simp

lemma nat_digits_digits: "\<forall>c \<in> set (nat_digits n). is_digit c"
proof (induction n rule: nat_digits.induct)
  case (1 n)
  have d: "\<And>k::nat. k < 10 \<Longrightarrow> is_digit (char_of (48 + k))"
    by (auto simp: is_digit_def less_eq_char_def)
  show ?case using 1 d by (subst nat_digits.simps) auto
qed

lemma digit_val_digit [simp]: "k < 10 \<Longrightarrow> digit_val (char_of (48 + k)) = k"
  by (simp add: digit_val_def)

lemma digits_val_snoc [simp]: "digits_val (xs @ [c]) = 10 * digits_val xs + digit_val c"
  by (simp add: digits_val_def)

lemma digits_val_nat_digits [simp]: "digits_val (nat_digits n) = n"
proof (induction n rule: nat_digits.induct)
  case (1 n)
  show ?case
  proof (cases "n < 10")
    case True
    then show ?thesis by (subst nat_digits.simps) (simp add: digits_val_def)
  next
    case False
    then show ?thesis using 1 by (subst nat_digits.simps) simp
  qed
qed

lemma nat_digits_hd:
  assumes "0 < n" shows "hd (nat_digits n) \<noteq> CHR ''0''"
  using assms
proof (induction n rule: nat_digits.induct)
  case (1 n)
  show ?case
  proof (cases "n < 10")
    case True
    then have "nat_digits n = [char_of (48 + n)]" by (subst nat_digits.simps) simp
    moreover have "char_of (48 + n) \<noteq> CHR ''0''"
    proof
      assume "char_of (48 + n) = CHR ''0''"
      then have "of_char (char_of (48 + n) :: char) = (of_char CHR ''0'' :: nat)" by simp
      with True 1(2) show False by simp
    qed
    ultimately show ?thesis by simp
  next
    case False
    then have "nat_digits n = nat_digits (n div 10) @ [char_of (48 + n mod 10)]" by (subst nat_digits.simps) simp
    then show ?thesis using 1 False by simp
  qed
qed

lemma takeWhile_digits:
  assumes "r = [] \<or> \<not> is_digit (hd r)"
  shows "takeWhile is_digit (nat_digits n @ r) = nat_digits n"
  using assms nat_digits_digits [of n] by (cases r) (auto simp: takeWhile_append2)

lemma not_digit_simps [simp]:
  "\<not> is_digit CHR ''-''" "\<not> is_digit CHR '',''" "\<not> is_digit NL" "\<not> is_digit CHR ''.''"
  by (simp_all add: is_digit_def less_eq_char_def)

lemma nat_digits_not_minus: "hd (nat_digits n) \<noteq> CHR ''-''"
  using nat_digits_digits [of n] nat_digits_ne [of n] hd_in_set not_digit_simps(1) by metis

lemma value_end_not_digit: "value_end r \<Longrightarrow> r \<noteq> [] \<and> \<not> is_digit (hd r) \<and> hd r \<notin> {CHR ''.'', CHR ''e'', CHR ''E''}"
  by (auto simp: value_end_def)

lemma parseNumber_digits:
  assumes "value_end r" and "neg \<longrightarrow> 0 < m"
    and "s = (if neg then CHR ''-'' # nat_digits m @ r else nat_digits m @ r)"
  shows "parseNumber s =
    (let n = (if neg then - int m else int m) in if - (2 ^ 63) \<le> n \<and> n < 2 ^ 63 then Some (JInt n, r) else None)"
proof -
  obtain c cs where cs: "nat_digits m = c # cs" using nat_digits_ne [of m] by (cases "nat_digits m") auto
  have c: "c \<noteq> CHR ''-''" using nat_digits_not_minus [of m] cs by simp
  have ds: "(if c = CHR ''0'' then [c] else takeWhile is_digit (c # cs @ r)) = c # cs"
  proof (cases "c = CHR ''0''")
    case True
    then have "m = 0" using nat_digits_hd [of m] cs by (cases "m = 0") auto
    moreover have "char_of (48::nat) = CHR ''0''"
      by (rule of_char_eq_iff [where 'a = nat, THEN iffD1]) simp
    ultimately have "nat_digits m = [CHR ''0'']" by (subst nat_digits.simps) simp
    then show ?thesis using True cs by simp
  next
    case False
    then show ?thesis using cs takeWhile_digits [of r m] value_end_not_digit [OF assms(1)] by simp
  qed
  have r: "r \<noteq> [] \<and> hd r \<notin> {CHR ''.'', CHR ''e'', CHR ''E''}" using value_end_not_digit [OF assms(1)] by simp
  have v: "digits_val (c # cs) = m" using cs digits_val_nat_digits [of m] by simp
  have split: "(case s of c' # r' \<Rightarrow> if c' = CHR ''-'' then (True, r') else (False, s) | [] \<Rightarrow> (False, s)) =
      (neg, c # cs @ r)"
    using assms(3) cs c by (cases neg) simp_all
  show ?thesis
    unfolding parseNumber_def split Let_def prod.case list.case ds
    using r v by (simp del: list.sel)
qed

lemma parseNumber_int_str:
  assumes "- (2 ^ 63) \<le> n" and "n < 2 ^ 63" and "value_end r"
  shows "parseNumber (int_str n @ r) = Some (JInt n, r)"
proof (cases "n < 0")
  case True
  then show ?thesis
    using parseNumber_digits [OF assms(3), of True "nat (- n)"] assms(1,2) by (simp add: int_str_def)
next
  case False
  then show ?thesis
    using parseNumber_digits [OF assms(3), of False "nat n"] assms(1,2) by (simp add: int_str_def)
qed

paragraph \<open>Strings\<close>

lemma hex_val_hexdig [simp]:
  assumes "k < 16" shows "hex_val (hexdig k) = Some k"
proof (cases "k < 10")
  case True
  have "is_digit (char_of (48 + k))" using True by (simp add: is_digit_def less_eq_char_def)
  then show ?thesis using True by (simp add: hex_val_def hexdig_def)
next
  case False
  have o: "of_char (char_of (87 + k) :: char) = (87 + k :: nat)" using assms by (simp add: of_char_of)
  have "\<not> is_digit (char_of (87 + k))" using False o by (simp add: is_digit_def less_eq_char_def)
  moreover have "CHR ''a'' \<le> char_of (87 + k) \<and> char_of (87 + k) \<le> CHR ''f''"
    using False assms o by (simp add: less_eq_char_def)
  ultimately show ?thesis using False o by (simp add: hex_val_def hexdig_def)
qed

lemma hex4_escape:
  assumes "n < 32"
  shows "hex4 ([CHR ''0'', CHR ''0'', hexdig (n div 16), hexdig (n mod 16)] @ t) = Some n"
proof -
  have z: "hexdig 0 = CHR ''0''"
    by (simp add: hexdig_def) (rule of_char_eq_iff [where 'a = nat, THEN iffD1], simp)
  have "hex_val (CHR ''0'') = Some 0" using hex_val_hexdig [of 0] z by simp
  then show ?thesis using assms by (simp add: hex4_def)
qed

lemma unescape_simps [simp]:
  "unescape QUOTE = QUOTE" "unescape BSLASH = BSLASH" "unescape CHR ''b'' = CHR 0x08"
  "unescape CHR ''f'' = CHR 0x0C" "unescape CHR ''n'' = CHR 0x0A" "unescape CHR ''r'' = CHR 0x0D"
  "unescape CHR ''t'' = CHR 0x09"
  by (simp_all add: unescape_def)

lemma parseString_escape_char:
  "parseString (escape_char c @ t) = map_option (apfst (Cons c)) (parseString t)"
proof -
  consider "c = QUOTE" | "c = BSLASH" | "c = CHR 0x08" | "c = CHR 0x0C" | "c = CHR 0x0A" | "c = CHR 0x0D"
    | "c = CHR 0x09" | "c \<notin> {QUOTE, BSLASH, CHR 0x08, CHR 0x0C, CHR 0x0A, CHR 0x0D, CHR 0x09}" "of_char c < (32::nat)"
    | "c \<notin> {QUOTE, BSLASH}" "\<not> of_char c < (32::nat)"
    by (cases "of_char c < (32::nat)") auto
  then show ?thesis
  proof cases
    case 8
    have "char_of (of_char c :: nat) = c" by simp
    then show ?thesis
      using 8 hex4_escape [OF 8(2), of t] by (auto simp: escape_char_def)
  next
    case 9
    have "QUOTE = CHR 0x22" "of_char QUOTE = (34::nat)" "of_char BSLASH = (92::nat)" by simp_all
    then show ?thesis using 9 by (auto simp: escape_char_def)
  qed (simp_all add: escape_char_def)
qed

lemma parseString_escapedString:
  "r \<noteq> [] \<Longrightarrow> parseString (escapedString s @ QUOTE # r) = Some (s, r)"
  by (induction s) (simp_all add: escapedString_def parseString_escape_char)

paragraph \<open>Containers and the parser steps\<close>

lemma obj_insert_snoc:
  "\<forall>kv' \<in> set acc. fst kv' < fst kv \<Longrightarrow> obj_insert kv acc = acc @ [kv]"
  by (induction acc) auto

lemma fold_obj_insert:
  "sorted_wrt (<) (map fst (acc @ kvs)) \<Longrightarrow> fold obj_insert kvs acc = acc @ kvs"
proof (induction kvs arbitrary: acc)
  case Nil
  then show ?case by simp
next
  case (Cons kv kvs)
  have "obj_insert kv acc = acc @ [kv]"
    using Cons.prems by (intro obj_insert_snoc) (auto simp: sorted_wrt_append)
  then show ?case using Cons.IH [of "acc @ [kv]"] Cons.prems by simp
qed

lemma is_digit_not_token:
  "is_digit c \<Longrightarrow> c \<notin> {CHR ''n'', CHR ''t'', CHR ''f'', QUOTE, CHR ''['', CHR ''{'', CHR '','', CHR '']'', CHR ''}''}
     \<and> \<not> is_ws c"
  by (auto simp: is_digit_def less_eq_char_def is_ws_def)

lemma parseValue_number:
  assumes "c = CHR ''-'' \<or> is_digit c"
  shows "parseValue (Suc f) d (c # r) = parseNumber (c # r)"
proof -
  have "c \<notin> {CHR ''n'', CHR ''t'', CHR ''f'', QUOTE, CHR ''['', CHR ''{'', CHR '','', CHR '']'', CHR ''}''}"
    using assms is_digit_not_token [of c] by auto
  then have "c \<noteq> CHR ''n''" "c \<noteq> CHR ''t''" "c \<noteq> CHR ''f''" "c \<noteq> QUOTE" "c \<noteq> CHR ''[''"
    "c \<noteq> CHR ''{''" "c \<notin> {CHR '','', CHR '']'', CHR ''}''}"
    by simp_all
  then show ?thesis by (simp only: parseValue.simps list.case if_False)
qed

lemma int_str_hd:
  "\<exists>c r. int_str n = c # r \<and> (c = CHR ''-'' \<or> is_digit c)"
proof -
  obtain c r where "nat_digits (nat n) = c # r" using nat_digits_ne by (cases "nat_digits (nat n)") auto
  moreover have "is_digit c" using calculation nat_digits_digits [of "nat n"] by simp
  ultimately show ?thesis by (auto simp: int_str_def)
qed

lemma valueToJson_hd:
  "\<exists>c r. valueToJson i v = c # r \<and> \<not> is_ws c \<and> c \<noteq> CHR '']'' \<and> c \<noteq> CHR ''}''"
proof (cases v)
  case (JInt n)
  obtain c r where "int_str n = c # r" "c = CHR ''-'' \<or> is_digit c" using int_str_hd by blast
  then show ?thesis using JInt is_digit_not_token [of c] by auto
qed (auto simp: is_ws_def)

lemma parseElements_eatSpace [simp]: "parseElements f d (eatSpace s) = parseElements f d s"
  by (cases f) simp_all

lemma parseElements_step:
  assumes "eatSpace s = c # r0" and "parseValue f d (c # r0) = Some (v, r)"
  shows "parseElements (Suc f) d s =
    (case eatSpace r of
       c # r1 \<Rightarrow> if c = CHR '']'' then Some ([v], r1)
                 else if c = CHR '','' then map_option (apfst (Cons v)) (parseElements f d r1) else None
     | [] \<Rightarrow> None)"
  using assms by simp

lemma parseMembers_step:
  assumes "parseString s = Some (k, r)" and "eatSpace r = CHR '':'' # r1"
    and "eatSpace r1 = c # r0" and "parseValue f d (c # r0) = Some (v, r2)"
  shows "parseMembers (Suc f) d acc s =
    (case eatSpace r2 of
       c2 # r3 \<Rightarrow>
         if c2 = CHR ''}'' then Some (obj_insert (k, v) acc, r3)
         else if c2 = CHR '','' then
           (case eatSpace r3 of
              c3 # r4 \<Rightarrow> if c3 = QUOTE then parseMembers f d (obj_insert (k, v) acc) r4 else None
            | [] \<Rightarrow> None)
         else None
     | [] \<Rightarrow> None)"
  using assms by simp

lemma arrayContent_hd:
  assumes "vs \<noteq> []"
  shows "\<exists>c r. eatSpace (arrayContentToJson i vs @ X) = c # r \<and> c \<noteq> CHR '']''"
proof -
  obtain v vs' where vs: "vs = v # vs'" using assms by (cases vs) auto
  obtain c r where "valueToJson i v = c # r" "\<not> is_ws c" "c \<noteq> CHR '']''" using valueToJson_hd by blast
  then show ?thesis using vs by auto
qed

lemma objectContent_hd:
  assumes "kvs \<noteq> []"
  shows "\<exists>Y. eatSpace (objectContentToJson i kvs @ X) = QUOTE # Y"
  using assms by (cases kvs) auto

lemma parseArray_content:
  assumes "vs \<noteq> []" and "Suc d \<le> nestingLimit"
  shows "parseArray (Suc f) d (NL # arrayContentToJson i vs @ X) =
           map_option (apfst JArr) (parseElements f (Suc d) (arrayContentToJson i vs @ X))"
proof -
  obtain c r where h: "eatSpace (arrayContentToJson i vs @ X) = c # r" "c \<noteq> CHR '']''"
    using arrayContent_hd [OF assms(1)] by blast
  have "parseElements f (Suc d) (c # r) = parseElements f (Suc d) (arrayContentToJson i vs @ X)"
    using parseElements_eatSpace [of f "Suc d" "arrayContentToJson i vs @ X"] h(1) by simp
  then show ?thesis using h assms(2) by simp
qed

lemma parseObject_content:
  assumes "eatSpace (objectContentToJson i kvs @ X) = QUOTE # Y" and "Suc d \<le> nestingLimit"
  shows "parseObject (Suc f) d (NL # objectContentToJson i kvs @ X) =
           map_option (apfst JObj) (parseMembers f (Suc d) [] Y)"
  using assms by simp

paragraph \<open>The round trip, by induction over the writer\<close>

lemma parse_valueToJson:
  shows "wf_jv v \<Longrightarrow> d + jdepth v \<le> nestingLimit \<Longrightarrow> length (valueToJson i v) \<le> f \<Longrightarrow> value_end rest \<Longrightarrow>
           parseValue f d (valueToJson i v @ rest) = Some (v, rest)"
    and "vs \<noteq> [] \<Longrightarrow> wf_jvs vs \<Longrightarrow> d + jdepths vs \<le> nestingLimit \<Longrightarrow> length (arrayContentToJson i vs) \<le> f \<Longrightarrow>
           parseElements f d (arrayContentToJson i vs @ spaces j @ CHR '']'' # rest) = Some (vs, rest)"
    and "kvs \<noteq> [] \<Longrightarrow> wf_jvm kvs \<Longrightarrow> d + jdepthm kvs \<le> nestingLimit \<Longrightarrow> length (objectContentToJson i kvs) \<le> f \<Longrightarrow>
           eatSpace (objectContentToJson i kvs @ spaces j @ CHR ''}'' # rest) = QUOTE # Y \<Longrightarrow>
           parseMembers f d acc Y = Some (fold obj_insert kvs acc, rest)"
proof (induction i v and i vs and i kvs arbitrary: f d rest and f d j rest and f d acc j rest Y
    rule: valueToJson_arrayContentToJson_objectContentToJson.induct)
  case (1 i)
  then obtain f' where "f = Suc f'" by (cases f) auto
  then show ?case by (simp add: parseLiteral_def)
next
  case (2 i b)
  then obtain f' where "f = Suc f'" by (cases f) (auto split: if_splits)
  then show ?case by (simp add: parseLiteral_def)
next
  case (3 i n)
  obtain c r where cr: "int_str n = c # r" "c = CHR ''-'' \<or> is_digit c" using int_str_hd by blast
  then obtain f' where f: "f = Suc f'" using 3 by (cases f) auto
  have "parseValue f d (int_str n @ rest) = parseNumber (int_str n @ rest)"
    using parseValue_number [OF cr(2)] cr(1) f by simp
  then show ?case using parseNumber_int_str 3 by simp
next
  case (4 i s)
  then obtain f' where "f = Suc f'" by (cases f) auto
  moreover have "rest \<noteq> []" using 4 by (auto simp: value_end_def)
  ultimately show ?case by (simp add: parseString_escapedString)
next
  case (5 i vs)
  obtain f' where f: "f = Suc (Suc f')" using 5 by (cases f; cases "f - 1") auto
  show ?case
  proof (cases "vs = []")
    case True
    then show ?thesis using f 5 by simp
  next
    case False
    have "parseElements f' (Suc d) (arrayContentToJson (Suc i) vs @ spaces i @ CHR '']'' # rest) = Some (vs, rest)"
      using 5 False f by simp
    then show ?thesis using parseArray_content [OF False, of d f' "Suc i"] 5 f by simp
  qed
next
  case (6 i kvs)
  obtain f' where f: "f = Suc (Suc f')" using 6 by (cases f; cases "f - 1") auto
  show ?case
  proof (cases "kvs = []")
    case True
    then show ?thesis using f 6 by simp
  next
    case False
    obtain Y where Y: "eatSpace (objectContentToJson (Suc i) kvs @ spaces i @ CHR ''}'' # rest) = QUOTE # Y"
      using objectContent_hd [OF False] by blast
    have "parseMembers f' (Suc d) [] Y = Some (fold obj_insert kvs [], rest)"
      using 6 False f Y by simp
    moreover have "fold obj_insert kvs [] = kvs" using fold_obj_insert [of "[]" kvs] 6 by simp
    ultimately show ?thesis using parseObject_content [OF Y, of d f'] 6 f by simp
  qed
next
  case (7 i)
  then show ?case by simp
next
  case (8 i v vs)
  obtain f' where f: "f = Suc f'" using 8 by (cases f) (auto split: if_splits)
  define T where "T = (if vs = [] then [NL] else CHR '','' # NL # arrayContentToJson i vs) @ spaces j @ CHR '']'' # rest"
  obtain c r where cr: "valueToJson i v = c # r" "\<not> is_ws c" using valueToJson_hd by blast
  have pv: "parseValue f' d (valueToJson i v @ T) = Some (v, T)"
    using 8 f by (intro "8.IH"(1)) (auto simp: T_def value_end_def split: if_splits)
  have es: "eatSpace (arrayContentToJson i (v # vs) @ spaces j @ CHR '']'' # rest) = c # r @ T"
    using cr by (simp add: T_def)
  have step: "parseElements f d (arrayContentToJson i (v # vs) @ spaces j @ CHR '']'' # rest) =
    (case eatSpace T of
       c # r1 \<Rightarrow> if c = CHR '']'' then Some ([v], r1)
                 else if c = CHR '','' then map_option (apfst (Cons v)) (parseElements f' d r1) else None
     | [] \<Rightarrow> None)"
    using parseElements_step [OF es] pv cr f by simp
  show ?case
  proof (cases "vs = []")
    case True
    then show ?thesis using step by (simp add: T_def)
  next
    case False
    have "parseElements f' d (arrayContentToJson i vs @ spaces j @ CHR '']'' # rest) = Some (vs, rest)"
      using 8 f False by (intro "8.IH"(2)) auto
    moreover have "parseElements f' d (NL # arrayContentToJson i vs @ spaces j @ CHR '']'' # rest) =
        parseElements f' d (arrayContentToJson i vs @ spaces j @ CHR '']'' # rest)"
      using parseElements_eatSpace [of f' d "NL # arrayContentToJson i vs @ spaces j @ CHR '']'' # rest"]
        parseElements_eatSpace [of f' d "arrayContentToJson i vs @ spaces j @ CHR '']'' # rest"] by simp
    ultimately show ?thesis using step False by (simp add: T_def)
  qed
next
  case (9 i)
  then show ?case by simp
next
  case (10 i kv kvs)
  obtain f' where f: "f = Suc f'" using 10 by (cases f) auto
  define T where "T = (if kvs = [] then [NL] else CHR '','' # NL # objectContentToJson i kvs) @ spaces j @ CHR ''}'' # rest"
  obtain c r where cr: "valueToJson i (snd kv) = c # r" "\<not> is_ws c" using valueToJson_hd by blast
  have Y: "Y = escapedString (fst kv) @ QUOTE # CHR '':'' # CHR '' '' # valueToJson i (snd kv) @ T"
    using "10.prems"(5) by (simp add: T_def)
  have pv: "parseValue f' d (valueToJson i (snd kv) @ T) = Some (snd kv, T)"
    using 10 f by (intro "10.IH"(1)) (auto simp: T_def value_end_def split: if_splits)
  have ps: "parseString Y = Some (fst kv, CHR '':'' # CHR '' '' # valueToJson i (snd kv) @ T)"
    using Y parseString_escapedString by simp
  have step: "parseMembers f d acc Y =
    (case eatSpace T of
       c2 # r3 \<Rightarrow>
         if c2 = CHR ''}'' then Some (obj_insert (fst kv, snd kv) acc, r3)
         else if c2 = CHR '','' then
           (case eatSpace r3 of
              c3 # r4 \<Rightarrow> if c3 = QUOTE then parseMembers f' d (obj_insert (fst kv, snd kv) acc) r4 else None
            | [] \<Rightarrow> None)
         else None
     | [] \<Rightarrow> None)"
    using parseMembers_step [OF ps, of "CHR '' '' # valueToJson i (snd kv) @ T" c "r @ T" f' d "snd kv" T acc]
      pv cr f by simp
  show ?case
  proof (cases "kvs = []")
    case True
    then show ?thesis using step by (simp add: T_def)
  next
    case False
    obtain Y' where Y': "eatSpace (objectContentToJson i kvs @ spaces j @ CHR ''}'' # rest) = QUOTE # Y'"
      using objectContent_hd [OF False] by blast
    have "parseMembers f' d (obj_insert kv acc) Y' = Some (fold obj_insert kvs (obj_insert kv acc), rest)"
      using 10 f False Y' by (intro "10.IH"(2)) auto
    then show ?thesis using step False Y' by (simp add: T_def)
  qed
qed

paragraph \<open>Documents\<close>

lemma valueToJson_container_hd:
  "is_container v \<Longrightarrow> \<exists>r. valueToJson i v = CHR ''['' # r \<or> valueToJson i v = CHR ''{'' # r"
  by (cases v) (auto simp: is_container_def)

lemma QJson_roundtrip:
  assumes "wf_doc d"
  shows "QJsonDocument_fromJson (QJsonDocument_toJson d) = d"
proof (cases d)
  case None
  then show ?thesis by (simp add: QJsonDocument_toJson_def QJsonDocument_fromJson_def parseDocument_def eatBOM_def)
next
  case (Some v)
  let ?s = "valueToJson 0 v @ [NL]"
  define F where "F = 3 * length ?s + 3"
  have wf: "is_container v" "wf_jv v" "jdepth v \<le> nestingLimit" using assms Some by (auto simp: wf_doc_def)
  have p: "parseValue (Suc F) 0 ?s = Some (v, [NL])"
    using parse_valueToJson(1) [of v 0 0 "Suc F" "[NL]"] wf by (simp add: value_end_def F_def)
  obtain r where r: "valueToJson 0 v = CHR ''['' # r \<or> valueToJson 0 v = CHR ''{'' # r"
    using valueToJson_container_hd [OF wf(1)] by blast
  have bom: "eatBOM ?s = ?s" using r by (auto simp: eatBOM_def)
  have "QJsonDocument_fromJson ?s = Some v"
    using r
  proof
    assume r1: "valueToJson 0 v = CHR ''['' # r"
    then have "parseArray F 0 (r @ [NL]) = Some (v, [NL])" using p by simp
    then show ?thesis
      unfolding QJsonDocument_fromJson_def parseDocument_def Let_def F_def [symmetric] using bom r1 by simp
  next
    assume r1: "valueToJson 0 v = CHR ''{'' # r"
    then have "parseObject F 0 (r @ [NL]) = Some (v, [NL])" using p by simp
    then show ?thesis
      unfolding QJsonDocument_fromJson_def parseDocument_def Let_def F_def [symmetric] using bom r1 by simp
  qed
  then show ?thesis by (simp add: Some QJsonDocument_toJson_def)
qed

lemma CR_notin_escape_char: "CR \<notin> set (escape_char c)"
proof -
  have h: "\<And>k. k < 16 \<Longrightarrow> hexdig k \<noteq> CR"
  proof
    fix k :: nat assume k: "k < 16" and e: "hexdig k = CR"
    then have "of_char (hexdig k) = (13::nat)" by simp
    then show False using k by (auto simp: hexdig_def of_char_of split: if_splits)
  qed
  have h1: "of_char c < (32::nat) \<Longrightarrow> hexdig (of_char c div 16) \<noteq> CR"
    by (intro h) (simp add: div_less_iff_less_mult)
  have h2: "hexdig (of_char c mod 16) \<noteq> CR" by (intro h) simp
  have h3: "\<not> of_char c < (32::nat) \<Longrightarrow> c \<noteq> CR" by auto
  show ?thesis using h1 h2 h3 by (auto simp: escape_char_def)
qed

lemma CR_notin_nat_digits: "CR \<notin> set (nat_digits n)"
  using nat_digits_digits [of n] by (auto simp: is_digit_def less_eq_char_def)

lemma CR_notin_valueToJson:
  shows "CR \<notin> set (valueToJson i v)" and "CR \<notin> set (arrayContentToJson i vs)"
    and "CR \<notin> set (objectContentToJson i kvs)"
  by (induction i v and i vs and i kvs rule: valueToJson_arrayContentToJson_objectContentToJson.induct)
    (auto simp: escapedString_def CR_notin_escape_char int_str_def CR_notin_nat_digits spaces_def)

lemma CR_notin_toJson: "CR \<notin> set (QJsonDocument_toJson d)"
  by (auto simp: QJsonDocument_toJson_def CR_notin_valueToJson split: option.splits)

lemma QJson_toJson_Nil: "QJsonDocument_toJson d = [] \<longleftrightarrow> d = None"
  by (simp add: QJsonDocument_toJson_def split: option.splits)

lemma QJson_fromJson_blank:
  assumes "\<forall>c \<in> set s. is_ws c"
  shows "QJsonDocument_fromJson s = None"
proof -
  have "take 3 s \<noteq> [CHR 0xEF, CHR 0xBB, CHR 0xBF]"
  proof
    assume "take 3 s = [CHR 0xEF, CHR 0xBB, CHR 0xBF]"
    then have "CHR 0xEF \<in> set s" using set_take_subset [of 3 s] by auto
    then show False using assms by (auto simp: is_ws_def)
  qed
  then have "eatBOM s = s" by (simp add: eatBOM_def)
  moreover have "eatSpace s = []" using assms by (simp add: eatSpace_def)
  ultimately show ?thesis by (simp add: QJsonDocument_fromJson_def parseDocument_def)
qed

end
