(* ===== verification/QJsonParser.thy ===== *)
theory QJsonParser
  imports QJsonRoundtrip
begin

text \<open>
  What the parser can return, whatever its input: values within the nesting
  limit, integers in range and objects with sorted distinct keys, always an
  array or an object at the top. So every document \<open>fromJson\<close> returns is
  well formed.
\<close>

subsection \<open>What the parser returns\<close>

text \<open>
  Every value the parser returns is well formed and within the nesting limit, whatever
  its input: object members are inserted sorted, numbers are range-checked, and each
  array or object checks the nesting level.
\<close>

lemma jdepthm_obj_insert: "jdepthm (obj_insert kv acc) \<le> max (jdepth (snd kv)) (jdepthm acc)"
  by (induction acc) auto

lemma parseElements_SomeE:
  assumes "parseElements (Suc f) d s = Some (vs, r)"
  obtains c0 s0 v r0 c1 r1 where "eatSpace s = c0 # s0" "parseValue f d (c0 # s0) = Some (v, r0)"
    "eatSpace r0 = c1 # r1"
    "c1 = CHR '']'' \<and> vs = [v] \<and> r = r1 \<or>
     c1 \<noteq> CHR '']'' \<and> c1 = CHR '','' \<and> (\<exists>vs'. parseElements f d r1 = Some (vs', r) \<and> vs = v # vs')"
  using assms by (auto split: list.splits option.splits if_splits)

lemma parseMembers_SomeE:
  assumes "parseMembers (Suc f) d acc s = Some (kvs, r)"
  obtains k y y1 c0 s0 v r2 c2 r3 where "parseString s = Some (k, y)" "eatSpace y = CHR '':'' # y1"
    "eatSpace y1 = c0 # s0" "parseValue f d (c0 # s0) = Some (v, r2)" "eatSpace r2 = c2 # r3"
    "c2 = CHR ''}'' \<and> kvs = obj_insert (k, v) acc \<and> r = r3 \<or>
     c2 \<noteq> CHR ''}'' \<and> c2 = CHR '','' \<and>
       (\<exists>r4. eatSpace r3 = QUOTE # r4 \<and> parseMembers f d (obj_insert (k, v) acc) r4 = Some (kvs, r))"
  using assms by (auto split: list.splits option.splits if_splits)

lemma parse_depth:
  "parseValue f d s = Some (v, r) \<Longrightarrow> d \<le> nestingLimit \<Longrightarrow> d + jdepth v \<le> nestingLimit"
  "parseArray f d s = Some (v, r) \<Longrightarrow> d + jdepth v \<le> nestingLimit"
  "parseElements f d s = Some (vs, r) \<Longrightarrow> d \<le> nestingLimit \<Longrightarrow> d + jdepths vs \<le> nestingLimit"
  "parseObject f d s = Some (v, r) \<Longrightarrow> d + jdepth v \<le> nestingLimit"
  "parseMembers f d acc s = Some (kvs, r) \<Longrightarrow> d \<le> nestingLimit \<Longrightarrow> d + jdepthm acc \<le> nestingLimit \<Longrightarrow>
     d + jdepthm kvs \<le> nestingLimit"
proof (induction f d s and f d s and f d s and f d s and f d acc s arbitrary: v r and v r and vs r and v r and kvs r
    rule: parseValue_parseArray_parseElements_parseObject_parseMembers.induct)
  case (2 f d s)
  then show ?case
    by (auto simp: parseLiteral_def parseNumber_def Let_def split: list.splits if_splits prod.splits)
next
  case (4 f d s)
  then show ?case by (auto split: list.splits if_splits)
next
  case (6 f d s)
  obtain c0 s0 v r0 c1 r1 where e: "eatSpace s = c0 # s0" "parseValue f d (c0 # s0) = Some (v, r0)"
    "eatSpace r0 = c1 # r1"
    and c: "c1 = CHR '']'' \<and> vs = [v] \<and> r = r1 \<or>
     c1 \<noteq> CHR '']'' \<and> c1 = CHR '','' \<and> (\<exists>vs'. parseElements f d r1 = Some (vs', r) \<and> vs = v # vs')"
    by (rule parseElements_SomeE [OF "6.prems"(1)])
  have dv: "d + jdepth v \<le> nestingLimit" using "6.IH"(1) [OF e(1) e(2)] "6.prems"(2) .
  show ?case
    using c
  proof
    assume "c1 = CHR '']'' \<and> vs = [v] \<and> r = r1"
    then show ?thesis using dv by simp
  next
    assume c': "c1 \<noteq> CHR '']'' \<and> c1 = CHR '','' \<and> (\<exists>vs'. parseElements f d r1 = Some (vs', r) \<and> vs = v # vs')"
    then obtain vs' where vs': "parseElements f d r1 = Some (vs', r)" "vs = v # vs'" by blast
    have "d + jdepths vs' \<le> nestingLimit"
      using "6.IH"(2) [OF e(1) e(2) refl e(3)] c' vs'(1) "6.prems"(2) by blast
    then show ?thesis using dv vs'(2) by simp
  qed
next
  case (8 f d s)
  then show ?case by (auto split: list.splits if_splits)
next
  case (10 f d acc s)
  obtain k y y1 c0 s0 v r2 c2 r3 where e: "parseString s = Some (k, y)" "eatSpace y = CHR '':'' # y1"
    "eatSpace y1 = c0 # s0" "parseValue f d (c0 # s0) = Some (v, r2)" "eatSpace r2 = c2 # r3"
    and c: "c2 = CHR ''}'' \<and> kvs = obj_insert (k, v) acc \<and> r = r3 \<or>
     c2 \<noteq> CHR ''}'' \<and> c2 = CHR '','' \<and>
       (\<exists>r4. eatSpace r3 = QUOTE # r4 \<and> parseMembers f d (obj_insert (k, v) acc) r4 = Some (kvs, r))"
    by (rule parseMembers_SomeE [OF "10.prems"(1)])
  have dv: "d + jdepth v \<le> nestingLimit" using "10.IH"(1) [OF e(1) refl e(2) _ e(3) e(4)] "10.prems"(2) by simp
  have da: "d + jdepthm (obj_insert (k, v) acc) \<le> nestingLimit"
    using jdepthm_obj_insert [of "(k, v)" acc] dv "10.prems"(3) by simp
  show ?case
    using c
  proof
    assume "c2 = CHR ''}'' \<and> kvs = obj_insert (k, v) acc \<and> r = r3"
    then show ?thesis using da by simp
  next
    assume c': "c2 \<noteq> CHR ''}'' \<and> c2 = CHR '','' \<and>
       (\<exists>r4. eatSpace r3 = QUOTE # r4 \<and> parseMembers f d (obj_insert (k, v) acc) r4 = Some (kvs, r))"
    then obtain r4 where r4: "eatSpace r3 = QUOTE # r4" "parseMembers f d (obj_insert (k, v) acc) r4 = Some (kvs, r)"
      by blast
    show ?thesis
      using "10.IH"(2) [OF e(1) refl e(2) _ e(3) e(4) refl e(5) _ _ r4(1) refl] c' r4(2) "10.prems"(2) da by simp
  qed
qed simp_all

lemma obj_insert_keys: "set (map fst (obj_insert kv acc)) = insert (fst kv) (set (map fst acc))"
  by (induction acc) auto

lemma obj_insert_fst: "x \<in> set (obj_insert kv acc) \<Longrightarrow> fst x = fst kv \<or> (\<exists>y \<in> set acc. fst x = fst y)"
  by (induction acc) (auto split: if_splits)

lemma obj_insert_sorted:
  "sorted_wrt (<) (map fst acc) \<Longrightarrow> sorted_wrt (<) (map fst (obj_insert kv acc))"
proof (induction acc)
  case Nil
  then show ?case by simp
next
  case (Cons kv' acc)
  consider "fst kv < fst kv'" | "fst kv = fst kv'" | "fst kv' < fst kv" by fastforce
  then show ?case
  proof cases
    case 1
    then show ?thesis using Cons.prems by (auto intro: order.strict_trans)
  next
    case 2
    then show ?thesis using Cons.prems by auto
  next
    case 3
    have "\<forall>x \<in> set (obj_insert kv acc). fst kv' < fst x"
      using obj_insert_fst 3 Cons.prems by fastforce
    then show ?thesis using Cons 3 by auto
  qed
qed

lemma wf_jvm_obj_insert: "wf_jv (snd kv) \<Longrightarrow> wf_jvm acc \<Longrightarrow> wf_jvm (obj_insert kv acc)"
  by (induction acc) auto

lemma parse_wf:
  "parseValue f d s = Some (v, r) \<Longrightarrow> wf_jv v"
  "parseArray f d s = Some (v, r) \<Longrightarrow> wf_jv v"
  "parseElements f d s = Some (vs, r) \<Longrightarrow> wf_jvs vs"
  "parseObject f d s = Some (v, r) \<Longrightarrow> wf_jv v"
  "parseMembers f d acc s = Some (kvs, r) \<Longrightarrow> sorted_wrt (<) (map fst acc) \<Longrightarrow> wf_jvm acc \<Longrightarrow>
     sorted_wrt (<) (map fst kvs) \<and> wf_jvm kvs"
proof (induction f d s and f d s and f d s and f d s and f d acc s arbitrary: v r and v r and vs r and v r and kvs r
    rule: parseValue_parseArray_parseElements_parseObject_parseMembers.induct)
  case (2 f d s)
  then show ?case
    by (auto simp: parseLiteral_def parseNumber_def Let_def split: list.splits if_splits prod.splits)
next
  case (4 f d s)
  then show ?case by (auto split: list.splits if_splits)
next
  case (6 f d s)
  obtain c0 s0 v r0 c1 r1 where e: "eatSpace s = c0 # s0" "parseValue f d (c0 # s0) = Some (v, r0)"
    "eatSpace r0 = c1 # r1"
    and c: "c1 = CHR '']'' \<and> vs = [v] \<and> r = r1 \<or>
     c1 \<noteq> CHR '']'' \<and> c1 = CHR '','' \<and> (\<exists>vs'. parseElements f d r1 = Some (vs', r) \<and> vs = v # vs')"
    by (rule parseElements_SomeE [OF "6.prems"(1)])
  have wv: "wf_jv v" using "6.IH"(1) [OF e(1) e(2)] .
  show ?case
    using c
  proof
    assume "c1 = CHR '']'' \<and> vs = [v] \<and> r = r1"
    then show ?thesis using wv by simp
  next
    assume c': "c1 \<noteq> CHR '']'' \<and> c1 = CHR '','' \<and> (\<exists>vs'. parseElements f d r1 = Some (vs', r) \<and> vs = v # vs')"
    then obtain vs' where vs': "parseElements f d r1 = Some (vs', r)" "vs = v # vs'" by blast
    have "wf_jvs vs'" using "6.IH"(2) [OF e(1) e(2) refl e(3)] c' vs'(1) by blast
    then show ?thesis using wv vs'(2) by simp
  qed
next
  case (8 f d s)
  then show ?case by (auto split: list.splits if_splits)
next
  case (10 f d acc s)
  obtain k y y1 c0 s0 v r2 c2 r3 where e: "parseString s = Some (k, y)" "eatSpace y = CHR '':'' # y1"
    "eatSpace y1 = c0 # s0" "parseValue f d (c0 # s0) = Some (v, r2)" "eatSpace r2 = c2 # r3"
    and c: "c2 = CHR ''}'' \<and> kvs = obj_insert (k, v) acc \<and> r = r3 \<or>
     c2 \<noteq> CHR ''}'' \<and> c2 = CHR '','' \<and>
       (\<exists>r4. eatSpace r3 = QUOTE # r4 \<and> parseMembers f d (obj_insert (k, v) acc) r4 = Some (kvs, r))"
    by (rule parseMembers_SomeE [OF "10.prems"(1)])
  have wv: "wf_jv v" using "10.IH"(1) [OF e(1) refl e(2) _ e(3) e(4)] by simp
  have wa: "sorted_wrt (<) (map fst (obj_insert (k, v) acc)) \<and> wf_jvm (obj_insert (k, v) acc)"
    using obj_insert_sorted wf_jvm_obj_insert wv "10.prems"(2,3) by simp
  show ?case
    using c
  proof
    assume "c2 = CHR ''}'' \<and> kvs = obj_insert (k, v) acc \<and> r = r3"
    then show ?thesis using wa by simp
  next
    assume c': "c2 \<noteq> CHR ''}'' \<and> c2 = CHR '','' \<and>
       (\<exists>r4. eatSpace r3 = QUOTE # r4 \<and> parseMembers f d (obj_insert (k, v) acc) r4 = Some (kvs, r))"
    then obtain r4 where r4: "eatSpace r3 = QUOTE # r4" "parseMembers f d (obj_insert (k, v) acc) r4 = Some (kvs, r)"
      by blast
    show ?thesis
      using "10.IH"(2) [OF e(1) refl e(2) _ e(3) e(4) refl e(5) _ _ r4(1) refl] c' r4(2) wa by simp
  qed
qed simp_all

lemma parseArray_container: "parseArray f d s = Some (v, r) \<Longrightarrow> is_container v"
  by (cases f) (auto simp: is_container_def split: list.splits if_splits)

lemma parseObject_container: "parseObject f d s = Some (v, r) \<Longrightarrow> is_container v"
  by (cases f) (auto simp: is_container_def split: list.splits if_splits)

lemma parse_top_wf:
  assumes "(if c = CHR ''['' then parseArray f 0 r else if c = CHR ''{'' then parseObject f 0 r else None) = Some (v, r')"
  shows "is_container v \<and> wf_jv v \<and> jdepth v \<le> nestingLimit"
proof (cases "c = CHR ''['' ")
  case True
  then have p: "parseArray f 0 r = Some (v, r')" using assms by simp
  show ?thesis using parseArray_container [OF p] parse_wf(2) [OF p] parse_depth(2) [OF p] by simp
next
  case False
  then have p: "parseObject f 0 r = Some (v, r')" using assms by (simp split: if_splits)
  show ?thesis using parseObject_container [OF p] parse_wf(4) [OF p] parse_depth(4) [OF p] by simp
qed

lemma QJson_fromJson_wf: "wf_doc (QJsonDocument_fromJson s)"
proof (cases "QJsonDocument_fromJson s")
  case (Some v)
  obtain c r where c: "eatSpace (eatBOM s) = c # r"
    using Some by (cases "eatSpace (eatBOM s)") (simp_all add: QJsonDocument_fromJson_def parseDocument_def)
  define res where "res = (if c = CHR ''['' then parseArray (3 * length s + 3) 0 r
             else if c = CHR ''{'' then parseObject (3 * length s + 3) 0 r else None)"
  have "QJsonDocument_fromJson s = (case res of Some (v, r') \<Rightarrow> if eatSpace r' = [] then Some v else None
      | None \<Rightarrow> None)"
    unfolding QJsonDocument_fromJson_def parseDocument_def Let_def c res_def by simp
  then obtain r' where "res = Some (v, r')"
    using Some by (cases res) (auto split: if_splits)
  then have "is_container v \<and> wf_jv v \<and> jdepth v \<le> nestingLimit"
    unfolding res_def by (rule parse_top_wf)
  then show ?thesis using Some by (simp add: wf_doc_def)
qed (simp add: wf_doc_def)

end
