(* ===== verification/QJsonFuel.thy ===== *)
theory QJsonFuel
  imports QJsonParser
begin

text \<open>
  The parser's fuel never runs out. Every successful parse consumes input,
  and a call on an input of length \<open>L\<close> needs fewer than \<open>3 L + 3\<close>
  units: a value spends one unit on its first character, and an array spends
  two more units before its first element. Above that bound one more unit does
  not change the result, so \<open>fromJson\<close>, which gives \<open>3 L + 3\<close> units,
  computes what the parser computes with unbounded fuel.
\<close>

subsection \<open>Every parse consumes input\<close>

lemma length_eatSpace: "length (eatSpace s) \<le> length s"
  by (simp add: eatSpace_def length_dropWhile_le)

lemma parseString_consumes: "parseString s = Some (k, r) \<Longrightarrow> length r < length s"
proof (induction s arbitrary: k rule: parseString.induct)
  case 1
  then show ?case by simp
next
  case (2 c s)
  then show ?case
    by (fastforce split: if_splits list.splits option.splits)
qed

lemma parseNumber_consumes: "parseNumber s = Some (v, r) \<Longrightarrow> length r < length s"
  by (auto simp: parseNumber_def Let_def split: list.splits if_splits)

lemma parseLiteral_consumes: "parseLiteral lit v s = Some (v', r) \<Longrightarrow> length r \<le> length s"
  by (auto simp: parseLiteral_def split: if_splits)

lemma parse_consumes:
  "parseValue f d s = Some (v, r) \<Longrightarrow> length r < length s"
  "parseArray f d s = Some (v, r) \<Longrightarrow> length r < length s"
  "parseElements f d s = Some (vs, r) \<Longrightarrow> length r < length s"
  "parseObject f d s = Some (v, r) \<Longrightarrow> length r < length s"
  "parseMembers f d acc s = Some (kvs, r) \<Longrightarrow> length r < length s"
proof (induction f d s and f d s and f d s and f d s and f d acc s arbitrary: v r and v r and vs r and v r and kvs r
    rule: parseValue_parseArray_parseElements_parseObject_parseMembers.induct)
  case (2 f d s)
  show ?case
  proof (cases s)
    case Nil
    then show ?thesis using "2.prems" by simp
  next
    case (Cons c s')
    show ?thesis
      using "2.prems" "2.IH" Cons parseString_consumes parseNumber_consumes parseLiteral_consumes
      by (fastforce split: if_splits)
  qed
next
  case (4 f d s)
  then show ?case
    using length_eatSpace [of s] by (fastforce split: list.splits if_splits)
next
  case (6 f d s)
  obtain c0 s0 v r0 c1 r1 where e: "eatSpace s = c0 # s0" "parseValue f d (c0 # s0) = Some (v, r0)"
    "eatSpace r0 = c1 # r1"
    and c: "c1 = CHR '']'' \<and> vs = [v] \<and> r = r1 \<or>
     c1 \<noteq> CHR '']'' \<and> c1 = CHR '','' \<and> (\<exists>vs'. parseElements f d r1 = Some (vs', r) \<and> vs = v # vs')"
    by (rule parseElements_SomeE [OF "6.prems"(1)])
  have l: "length r1 < length s"
    using "6.IH"(1) [OF e(1) e(2)] length_eatSpace [of s] length_eatSpace [of r0] e by simp
  show ?case
    using c
  proof
    assume "c1 = CHR '']'' \<and> vs = [v] \<and> r = r1"
    then show ?thesis using l by simp
  next
    assume c': "c1 \<noteq> CHR '']'' \<and> c1 = CHR '','' \<and> (\<exists>vs'. parseElements f d r1 = Some (vs', r) \<and> vs = v # vs')"
    then obtain vs' where vs': "parseElements f d r1 = Some (vs', r)" by blast
    show ?thesis using "6.IH"(2) [OF e(1) e(2) refl e(3)] c' vs' l by fastforce
  qed
next
  case (8 f d s)
  then show ?case
    using length_eatSpace [of s] by (fastforce split: list.splits if_splits)
next
  case (10 f d acc s)
  obtain k y y1 c0 s0 v r2 c2 r3 where e: "parseString s = Some (k, y)" "eatSpace y = CHR '':'' # y1"
    "eatSpace y1 = c0 # s0" "parseValue f d (c0 # s0) = Some (v, r2)" "eatSpace r2 = c2 # r3"
    and c: "c2 = CHR ''}'' \<and> kvs = obj_insert (k, v) acc \<and> r = r3 \<or>
     c2 \<noteq> CHR ''}'' \<and> c2 = CHR '','' \<and>
       (\<exists>r4. eatSpace r3 = QUOTE # r4 \<and> parseMembers f d (obj_insert (k, v) acc) r4 = Some (kvs, r))"
    by (rule parseMembers_SomeE [OF "10.prems"(1)])
  have l: "length r3 < length s"
    using "10.IH"(1) [OF e(1) refl e(2) _ e(3) e(4)] parseString_consumes [OF e(1)]
      length_eatSpace [of y] length_eatSpace [of y1] length_eatSpace [of r2] e(2,3,5) by fastforce
  show ?case
    using c
  proof
    assume "c2 = CHR ''}'' \<and> kvs = obj_insert (k, v) acc \<and> r = r3"
    then show ?thesis using l by simp
  next
    assume c': "c2 \<noteq> CHR ''}'' \<and> c2 = CHR '','' \<and>
       (\<exists>r4. eatSpace r3 = QUOTE # r4 \<and> parseMembers f d (obj_insert (k, v) acc) r4 = Some (kvs, r))"
    then obtain r4 where r4: "eatSpace r3 = QUOTE # r4" "parseMembers f d (obj_insert (k, v) acc) r4 = Some (kvs, r)"
      by blast
    have "length r < length r4"
      using "10.IH"(2) [OF e(1) refl e(2) _ e(3) e(4) refl e(5) _ _ r4(1) refl] c' r4(2) by simp
    moreover have "length r4 < length r3" using length_eatSpace [of r3] r4(1) by simp
    ultimately show ?thesis using l by simp
  qed
qed simp_all

subsection \<open>Enough fuel\<close>

lemma parse_fuel_Suc:
  "3 * length s < f \<Longrightarrow> parseValue f d s = parseValue (Suc f) d s"
  "3 * length s + 2 < f \<Longrightarrow> parseArray f d s = parseArray (Suc f) d s"
  "3 * length s + 1 < f \<Longrightarrow> parseElements f d s = parseElements (Suc f) d s"
  "3 * length s + 2 < f \<Longrightarrow> parseObject f d s = parseObject (Suc f) d s"
  "3 * length s + 1 < f \<Longrightarrow> parseMembers f d acc s = parseMembers (Suc f) d acc s"
proof (induction f d s and f d s and f d s and f d s and f d acc s
    rule: parseValue_parseArray_parseElements_parseObject_parseMembers.induct)
  case (2 f d s)
  show ?case
  proof (cases s)
    case Nil
    then show ?thesis by simp
  next
    case (Cons c r)
    have a: "c = CHR ''['' \<Longrightarrow> parseArray f d r = parseArray (Suc f) d r"
      using "2.IH"(1) [OF Cons] "2.prems" Cons by (cases "c = CHR ''n''"; cases "c = CHR ''t''"; cases "c = CHR ''f''";
        cases "c = QUOTE") simp_all
    have o: "c = CHR ''{'' \<Longrightarrow> parseObject f d r = parseObject (Suc f) d r"
      using "2.IH"(2) [OF Cons] "2.prems" Cons by (cases "c = CHR ''n''"; cases "c = CHR ''t''"; cases "c = CHR ''f''";
        cases "c = QUOTE") simp_all
    show ?thesis using a o Cons by simp
  qed
next
  case (4 f d s)
  show ?case
  proof (cases "eatSpace s")
    case Nil
    then show ?thesis by simp
  next
    case (Cons c r)
    have "c \<noteq> CHR '']'' \<Longrightarrow> \<not> nestingLimit < Suc d \<Longrightarrow>
        parseElements f (Suc d) (c # r) = parseElements (Suc f) (Suc d) (c # r)"
      using "4.IH" [OF _ Cons] "4.prems" length_eatSpace [of s] Cons by simp
    then show ?thesis using Cons by simp
  qed
next
  case (6 f d s)
  show ?case
  proof (cases "eatSpace s")
    case Nil
    then show ?thesis by simp
  next
    case (Cons c0 s0)
    have L: "length (c0 # s0) \<le> length s" using length_eatSpace [of s] Cons by simp
    have ev: "parseValue f d (c0 # s0) = parseValue (Suc f) d (c0 # s0)"
      using "6.IH"(1) [OF Cons] "6.prems" L by simp
    show ?thesis
    proof (cases "parseValue f d (c0 # s0)")
      case None
      then show ?thesis using Cons ev [symmetric] by simp
    next
      case (Some vr)
      obtain v r0 where vr: "vr = (v, r0)" by fastforce
      have lr0: "length r0 < length (c0 # s0)" using parse_consumes(1) Some vr by blast
      show ?thesis
      proof (cases "eatSpace r0")
        case Nil
        then show ?thesis using Cons ev [symmetric] Some vr by simp
      next
        case (Cons c1 r1)
        have lr1: "length r1 < length r0" using length_eatSpace [of r0] Cons by simp
        have "c1 = CHR '','' \<Longrightarrow> parseElements f d r1 = parseElements (Suc f) d r1"
          using "6.IH"(2) [OF \<open>eatSpace s = c0 # s0\<close> Some vr [symmetric] Cons] "6.prems" L lr0 lr1 by simp
        then show ?thesis using \<open>eatSpace s = c0 # s0\<close> ev [symmetric] Some vr Cons by simp
      qed
    qed
  qed
next
  case (8 f d s)
  show ?case
  proof (cases "eatSpace s")
    case Nil
    then show ?thesis by simp
  next
    case (Cons c r)
    have "c = QUOTE \<Longrightarrow> \<not> nestingLimit < Suc d \<Longrightarrow>
        parseMembers f (Suc d) [] r = parseMembers (Suc f) (Suc d) [] r"
      using "8.IH" [OF _ Cons] "8.prems" length_eatSpace [of s] Cons by simp
    then show ?thesis using Cons by simp
  qed
next
  case (10 f d acc s)
  show ?case
  proof (cases "parseString s")
    case None
    then show ?thesis by simp
  next
    case (Some ky)
    obtain k y where ky: "ky = (k, y)" by fastforce
    have ly: "length y < length s" using parseString_consumes Some ky by blast
    show ?thesis
    proof (cases "eatSpace y")
      case Nil
      then show ?thesis using Some ky by simp
    next
      case (Cons c y1)
      show ?thesis
      proof (cases "c = CHR '':''")
        case False
        then show ?thesis using Some ky Cons by simp
      next
        case True
        have ly1: "length y1 < length y" using length_eatSpace [of y] Cons by simp
        show ?thesis
        proof (cases "eatSpace y1")
          case Nil
          then show ?thesis using Some ky Cons True by simp
        next
          case (Cons c0 s0)
          have L: "length (c0 # s0) \<le> length y1" using length_eatSpace [of y1] Cons by simp
          have ev: "parseValue f d (c0 # s0) = parseValue (Suc f) d (c0 # s0)"
            using "10.IH"(1) [OF Some ky [symmetric] \<open>eatSpace y = c # y1\<close> _ Cons] True "10.prems" L ly ly1
            by simp
          show ?thesis
          proof (cases "parseValue f d (c0 # s0)")
            case None
            then show ?thesis using Some ky \<open>eatSpace y = c # y1\<close> True Cons ev [symmetric] by simp
          next
            case (Some vr)
            obtain v r2 where vr: "vr = (v, r2)" by fastforce
            have lr2: "length r2 < length (c0 # s0)" using parse_consumes(1) Some vr by blast
            have rec: "eatSpace r2 = CHR '','' # r3 \<Longrightarrow> eatSpace r3 = QUOTE # r4 \<Longrightarrow>
                parseMembers f d (obj_insert (k, v) acc) r4 = parseMembers (Suc f) d (obj_insert (k, v) acc) r4"
              for r3 r4
            proof -
              assume e3: "eatSpace r2 = CHR '','' # r3" and e4: "eatSpace r3 = QUOTE # r4"
              have "length r4 < length r2"
                using length_eatSpace [of r2] length_eatSpace [of r3] e3 e4 by simp
              then show ?thesis
                using "10.IH"(2) [OF \<open>parseString s = Some ky\<close> ky [symmetric] \<open>eatSpace y = c # y1\<close> _ Cons
                    Some vr [symmetric] e3 _ refl e4 refl] True "10.prems" L ly ly1 lr2 by simp
            qed
            show ?thesis
              using \<open>parseString s = Some ky\<close> ky \<open>eatSpace y = c # y1\<close> True Cons ev [symmetric] Some vr rec
              by (simp split: list.splits)
          qed
        qed
      qed
    qed
  qed
qed simp_all

lemma parseArray_fuel_add:
  assumes "3 * length s + 2 < f" shows "parseArray (f + k) d s = parseArray f d s"
proof (induction k)
  case 0
  then show ?case by simp
next
  case (Suc k)
  have "parseArray (Suc (f + k)) d s = parseArray (f + k) d s"
    using parse_fuel_Suc(2) [of s "f + k" d] assms by simp
  then show ?case unfolding add_Suc_right using Suc.IH by (rule trans)
qed

lemma parseObject_fuel_add:
  assumes "3 * length s + 2 < f" shows "parseObject (f + k) d s = parseObject f d s"
proof (induction k)
  case 0
  then show ?case by simp
next
  case (Suc k)
  have "parseObject (Suc (f + k)) d s = parseObject (f + k) d s"
    using parse_fuel_Suc(4) [of s "f + k" d] assms by simp
  then show ?case unfolding add_Suc_right using Suc.IH by (rule trans)
qed

lemma length_eatSpace_eatBOM: "length (eatSpace (eatBOM s)) \<le> length s"
  unfolding eatBOM_def using length_eatSpace [of s] length_eatSpace [of "drop 3 s"] by auto

lemma parseDocument_fuel: "parseDocument (3 * length s + 3 + k) s = QJsonDocument_fromJson s"
proof (cases "eatSpace (eatBOM s)")
  case Nil
  then show ?thesis by (simp add: QJsonDocument_fromJson_def parseDocument_def)
next
  case (Cons c r)
  have "length r < length s" using length_eatSpace_eatBOM [of s] Cons by simp
  then have "3 * length r + 2 < 3 * length s + 3" by simp
  then show ?thesis
    using Cons parseArray_fuel_add [of r "3 * length s + 3" k 0] parseObject_fuel_add [of r "3 * length s + 3" k 0]
    by (simp add: QJsonDocument_fromJson_def parseDocument_def)
qed

end
