(* ===== verification/QJsonDepth.thy ===== *)
theory QJsonDepth
  imports QJsonParser
begin

text \<open>
  What the parser makes of the writer's output when it does not return the
  value written: nothing. On the text of a well-formed value the parser,
  whatever its fuel and starting level, returns either that value or no
  value; with the nesting bound of \<open>QJsonParser\<close> this shows that the text
  of a value nested deeper than 1024 levels parses to the null document.
\<close>

text \<open>Arrays nested \<open>Suc n\<close> levels deep, innermost empty: \<open>[[...[]...]]\<close>.\<close>

primrec nested :: "nat \<Rightarrow> jvalue" where
  "nested 0 = JArr []"
| "nested (Suc n) = JArr [nested n]"

subsection \<open>The writer's output parses to its value or to nothing\<close>

lemma parse_valueToJson_unique:
  shows "wf_jv v \<Longrightarrow> value_end rest \<Longrightarrow> parseValue f d (valueToJson i v @ rest) = Some x \<Longrightarrow>
           x = (v, rest)"
    and "vs \<noteq> [] \<Longrightarrow> wf_jvs vs \<Longrightarrow>
           parseElements f d (arrayContentToJson i vs @ spaces j @ CHR '']'' # rest) = Some y \<Longrightarrow>
           y = (vs, rest)"
    and "kvs \<noteq> [] \<Longrightarrow> wf_jvm kvs \<Longrightarrow>
           eatSpace (objectContentToJson i kvs @ spaces j @ CHR ''}'' # rest) = QUOTE # Y \<Longrightarrow>
           parseMembers f d acc Y = Some z \<Longrightarrow> z = (fold obj_insert kvs acc, rest)"
proof (induction i v and i vs and i kvs arbitrary: f d rest x and f d j rest y and f d acc j rest Y z
    rule: valueToJson_arrayContentToJson_objectContentToJson.induct)
  case (1 i)
  then obtain f' where "f = Suc f'" by (cases f) auto
  then show ?case using 1 by (simp add: parseLiteral_def)
next
  case (2 i b)
  then obtain f' where "f = Suc f'" by (cases f) (auto split: if_splits)
  then show ?case using 2 by (simp add: parseLiteral_def split: if_splits)
next
  case (3 i n)
  obtain c r where cr: "int_str n = c # r" "c = CHR ''-'' \<or> is_digit c" using int_str_hd by blast
  then obtain f' where f: "f = Suc f'" using 3 by (cases f) auto
  have "parseValue f d (int_str n @ rest) = parseNumber (int_str n @ rest)"
    using parseValue_number [OF cr(2)] cr(1) f by simp
  then show ?case using parseNumber_int_str 3 by simp
next
  case (4 i s)
  then obtain f' where "f = Suc f'" by (cases f) auto
  moreover have "rest \<noteq> []" using 4 by (auto simp: value_end_def)
  ultimately show ?case using 4 by (simp add: parseString_escapedString)
next
  case (5 i vs)
  obtain f' where f: "f = Suc (Suc f')" using "5.prems"(3) by (cases f; cases "f - 1") auto
  have lim: "Suc d \<le> nestingLimit"
    using "5.prems"(3) f by (cases "nestingLimit < Suc d") simp_all
  show ?case
  proof (cases "vs = []")
    case True
    then show ?thesis using f lim "5.prems"(3) by simp
  next
    case False
    have "map_option (apfst JArr) (parseElements f' (Suc d) (arrayContentToJson (Suc i) vs @ spaces i @ CHR '']'' # rest)) = Some x"
      using parseArray_content [OF False lim, of f' "Suc i"] "5.prems"(3) f by simp
    then obtain y where y: "parseElements f' (Suc d) (arrayContentToJson (Suc i) vs @ spaces i @ CHR '']'' # rest) = Some y"
      and x: "x = apfst JArr y" by blast
    have "y = (vs, rest)" using "5.IH" [OF False _ y] "5.prems"(1) by simp
    then show ?thesis using x by simp
  qed
next
  case (6 i kvs)
  obtain f' where f: "f = Suc (Suc f')" using "6.prems"(3) by (cases f; cases "f - 1") auto
  have lim: "Suc d \<le> nestingLimit"
    using "6.prems"(3) f by (cases "nestingLimit < Suc d") simp_all
  show ?case
  proof (cases "kvs = []")
    case True
    then show ?thesis using f lim "6.prems"(3) by simp
  next
    case False
    obtain Y where Y: "eatSpace (objectContentToJson (Suc i) kvs @ spaces i @ CHR ''}'' # rest) = QUOTE # Y"
      using objectContent_hd [OF False] by blast
    have "map_option (apfst JObj) (parseMembers f' (Suc d) [] Y) = Some x"
      using parseObject_content [OF Y lim, of f'] "6.prems"(3) f by simp
    then obtain z where z: "parseMembers f' (Suc d) [] Y = Some z" and x: "x = apfst JObj z" by blast
    have "z = (fold obj_insert kvs [], rest)" using "6.IH" [OF False _ Y z] "6.prems"(1) by simp
    moreover have "fold obj_insert kvs [] = kvs" using fold_obj_insert [of "[]" kvs] "6.prems"(1) by simp
    ultimately show ?thesis using x by simp
  qed
next
  case (7 i)
  then show ?case by simp
next
  case (8 i v vs)
  obtain f' where f: "f = Suc f'" using "8.prems"(3) by (cases f) auto
  define T where "T = (if vs = [] then [NL] else CHR '','' # NL # arrayContentToJson i vs) @ spaces j @ CHR '']'' # rest"
  obtain c r where cr: "valueToJson i v = c # r" "\<not> is_ws c" using valueToJson_hd by blast
  have es: "eatSpace (arrayContentToJson i (v # vs) @ spaces j @ CHR '']'' # rest) = c # r @ T"
    using cr by (simp add: T_def)
  obtain ys rs where y: "y = (ys, rs)" by (cases y)
  have pe: "parseElements (Suc f') d (arrayContentToJson i (v # vs) @ spaces j @ CHR '']'' # rest) = Some (ys, rs)"
    using "8.prems"(3) f y by simp
  obtain c0 s0 v' r0 c1 r1 where e0: "eatSpace (arrayContentToJson i (v # vs) @ spaces j @ CHR '']'' # rest) = c0 # s0"
    and pv: "parseValue f' d (c0 # s0) = Some (v', r0)" and e1: "eatSpace r0 = c1 # r1"
    and alt: "c1 = CHR '']'' \<and> ys = [v'] \<and> rs = r1 \<or>
      c1 \<noteq> CHR '']'' \<and> c1 = CHR '','' \<and> (\<exists>vs'. parseElements f' d r1 = Some (vs', rs) \<and> ys = v' # vs')"
    using pe by (rule parseElements_SomeE)
  have "parseValue f' d (valueToJson i v @ T) = Some (v', r0)" using pv e0 es cr by simp
  then have vr: "(v', r0) = (v, T)"
    using "8.prems"(2) by (intro "8.IH"(1)) (auto simp: T_def value_end_def split: if_splits)
  show ?case
  proof (cases "vs = []")
    case True
    then show ?thesis using alt e1 vr y by (simp add: T_def)
  next
    case False
    then have r1: "r1 = NL # arrayContentToJson i vs @ spaces j @ CHR '']'' # rest" and c1: "c1 = CHR '',''"
      using e1 vr by (simp_all add: T_def)
    obtain vs' where p': "parseElements f' d r1 = Some (vs', rs)" and y1: "ys = v # vs'"
      using alt c1 vr by auto
    have "parseElements f' d (arrayContentToJson i vs @ spaces j @ CHR '']'' # rest) = Some (vs', rs)"
      using p' r1 parseElements_eatSpace [of f' d "NL # arrayContentToJson i vs @ spaces j @ CHR '']'' # rest"]
        parseElements_eatSpace [of f' d "arrayContentToJson i vs @ spaces j @ CHR '']'' # rest"] by simp
    then have "(vs', rs) = (vs, rest)" using "8.prems"(2) False by (intro "8.IH"(2)) auto
    then show ?thesis using y1 y by simp
  qed
next
  case (9 i)
  then show ?case by simp
next
  case (10 i kv kvs)
  obtain f' where f: "f = Suc f'" using "10.prems"(4) by (cases f) auto
  define T where "T = (if kvs = [] then [NL] else CHR '','' # NL # objectContentToJson i kvs) @ spaces j @ CHR ''}'' # rest"
  have Y: "Y = escapedString (fst kv) @ QUOTE # CHR '':'' # CHR '' '' # valueToJson i (snd kv) @ T"
    using "10.prems"(3) by (simp add: T_def)
  obtain c r where cr: "valueToJson i (snd kv) = c # r" "\<not> is_ws c" using valueToJson_hd by blast
  have ps: "parseString Y = Some (fst kv, CHR '':'' # CHR '' '' # valueToJson i (snd kv) @ T)"
    using Y parseString_escapedString by simp
  obtain ks rs where z: "z = (ks, rs)" by (cases z)
  have pm: "parseMembers (Suc f') d acc Y = Some (ks, rs)" using "10.prems"(4) f z by simp
  obtain k y y1 c0 s0 v' r2 c2 r3 where k: "parseString Y = Some (k, y)" and e1: "eatSpace y = CHR '':'' # y1"
    and e2: "eatSpace y1 = c0 # s0" and pv: "parseValue f' d (c0 # s0) = Some (v', r2)"
    and e3: "eatSpace r2 = c2 # r3"
    and alt: "c2 = CHR ''}'' \<and> ks = obj_insert (k, v') acc \<and> rs = r3 \<or>
      c2 \<noteq> CHR ''}'' \<and> c2 = CHR '','' \<and>
        (\<exists>r4. eatSpace r3 = QUOTE # r4 \<and> parseMembers f' d (obj_insert (k, v') acc) r4 = Some (ks, rs))"
    using pm by (rule parseMembers_SomeE)
  have ky: "k = fst kv" "y = CHR '':'' # CHR '' '' # valueToJson i (snd kv) @ T" using k ps by simp_all
  have "c0 # s0 = valueToJson i (snd kv) @ T" using e1 e2 ky cr by (auto simp: is_ws_def)
  then have "parseValue f' d (valueToJson i (snd kv) @ T) = Some (v', r2)" using pv by simp
  then have vr: "(v', r2) = (snd kv, T)"
    using "10.prems"(2) by (intro "10.IH"(1)) (auto simp: T_def value_end_def split: if_splits)
  show ?case
  proof (cases "kvs = []")
    case True
    then show ?thesis using alt e3 vr z ky by (simp add: T_def)
  next
    case False
    then have r3: "r3 = NL # objectContentToJson i kvs @ spaces j @ CHR ''}'' # rest" and c2: "c2 = CHR '',''"
      using e3 vr by (simp_all add: T_def)
    obtain r4 where r4: "eatSpace r3 = QUOTE # r4" and pm': "parseMembers f' d (obj_insert (k, v') acc) r4 = Some (ks, rs)"
      using alt c2 by auto
    obtain Y' where Y': "eatSpace (objectContentToJson i kvs @ spaces j @ CHR ''}'' # rest) = QUOTE # Y'"
      using objectContent_hd [OF False] by blast
    have "r4 = Y'" using r4 r3 Y' by simp
    then have "parseMembers f' d (obj_insert kv acc) Y' = Some (ks, rs)" using pm' ky vr by simp
    then have "(ks, rs) = (fold obj_insert kvs (obj_insert kv acc), rest)"
      using "10.prems"(2) False Y' by (intro "10.IH"(2)) auto
    then show ?thesis using z by simp
  qed
qed

subsection \<open>Documents beyond the nesting limit\<close>

lemma parse_valueToJson_deep:
  assumes "wf_jv v" and "nestingLimit < jdepth v" and "value_end rest"
  shows "parseValue f 0 (valueToJson i v @ rest) = None"
proof (cases "parseValue f 0 (valueToJson i v @ rest)")
  case (Some x)
  then have "x = (v, rest)" using parse_valueToJson_unique(1) [OF assms(1,3)] by blast
  then have "jdepth v \<le> nestingLimit" using parse_depth(1) [of f 0 _ v rest] Some by simp
  then show ?thesis using assms(2) by simp
qed

text \<open>
  The writer's text of an array or object parses back to the value when it is
  within the nesting limit, and to the null document when it is deeper.
\<close>

lemma QJson_fromJson_toJson:
  assumes "is_container v" and "wf_jv v"
  shows "QJsonDocument_fromJson (QJsonDocument_toJson (Some v)) =
           (if jdepth v \<le> nestingLimit then Some v else None)"
proof (cases "jdepth v \<le> nestingLimit")
  case True
  then have "wf_doc (Some v)" using assms by (simp add: wf_doc_def)
  then show ?thesis using QJson_roundtrip True by simp
next
  case False
  let ?s = "valueToJson 0 v @ [NL]"
  define F where "F = 3 * length ?s + 3"
  have p: "parseValue (Suc F) 0 ?s = None"
    using parse_valueToJson_deep [OF assms(2), of "[NL]" "Suc F" 0] False by (simp add: value_end_def)
  obtain r where r: "valueToJson 0 v = CHR ''['' # r \<or> valueToJson 0 v = CHR ''{'' # r"
    using valueToJson_container_hd [OF assms(1)] by blast
  have bom: "eatBOM ?s = ?s" using r by (auto simp: eatBOM_def)
  have "QJsonDocument_fromJson ?s = None"
    using r
  proof
    assume r1: "valueToJson 0 v = CHR ''['' # r"
    then have "parseArray F 0 (r @ [NL]) = None" using p by simp
    then show ?thesis
      unfolding QJsonDocument_fromJson_def parseDocument_def Let_def F_def [symmetric] using bom r1 by simp
  next
    assume r1: "valueToJson 0 v = CHR ''{'' # r"
    then have "parseObject F 0 (r @ [NL]) = None" using p by simp
    then show ?thesis
      unfolding QJsonDocument_fromJson_def parseDocument_def Let_def F_def [symmetric] using bom r1 by simp
  qed
  then show ?thesis using False by (simp add: QJsonDocument_toJson_def)
qed

lemma nested_props [simp]: "jdepth (nested n) = Suc n" "wf_jv (nested n)" "is_container (nested n)"
  by (induction n) (simp_all add: is_container_def)

end
