(* ===== verification/JsonQt.thy ===== *)
theory JsonQt
  imports JsonStore QJsonFuel QJsonDepth
begin

text \<open>
  \<open>jnc::Json\<close> composed with Qt's JSON writer and parser: the codec of
  JncJson instantiated with \<open>QJsonDocument::toJson\<close> and
  \<open>QJsonDocument::fromJson\<close>, and the null document \<open>QJsonDocument{}\<close>. The
  hypothesis \<open>codec_roundtrips\<close> of the abstract theorems is discharged for
  every well-formed document, which turns them into statements about the
  program as it runs on Qt.
\<close>

definition qjson_codec :: "QJsonDocument JsonCodec" where
  "qjson_codec = \<lparr>toJson = QJsonDocument_toJson, fromJson = QJsonDocument_fromJson, nullDoc = None\<rparr>"

text \<open>
  The documents a \<open>QJsonDocument\<close> can hold: the null document, or an
  array or object whose integers are in range and whose object keys are
  sorted (a \<open>QJsonObject\<close> keeps them so); and what \<open>load\<close> gives back
  after \<open>dump\<close> of one of them: the document itself within the nesting
  limit, the null document beyond.
\<close>

definition qt_document :: "QJsonDocument \<Rightarrow> bool" where
  "qt_document d \<longleftrightarrow> (case d of None \<Rightarrow> True | Some v \<Rightarrow> is_container v \<and> wf_jv v)"

definition qt_norm :: "QJsonDocument \<Rightarrow> QJsonDocument" where
  "qt_norm d = (if wf_doc d then d else None)"

subsection \<open>The codec laws\<close>

lemma qjson_codec_roundtrips: "wf_doc d \<Longrightarrow> codec_roundtrips qjson_codec d"
  by (simp add: codec_roundtrips_def qjson_codec_def CR_notin_toJson QJson_toJson_Nil QJson_roundtrip)

lemma qjson_load_eq:
  "fst (Json_load qjson_codec p w) =
     (if load_succeeds w p \<and> strip_CR (file_text w p) \<noteq> [] then QJsonDocument_fromJson (strip_CR (file_text w p))
      else None)"
  by (simp add: Json_load_eq qjson_codec_def)

lemma qjson_load_wf: "wf_doc (fst (Json_load qjson_codec p w))"
  by (simp add: qjson_load_eq QJson_fromJson_wf) (simp add: wf_doc_def)

text \<open>
  On a dumpable path, \<open>load\<close> after \<open>dump\<close> returns what Qt's parser makes
  of Qt's writer output: the text reaches the file unchanged (it has no
  carriage return to lose) and is read back whole.
\<close>

lemma qjson_load_dump:
  assumes "dumpable w p"
  shows "fst (Json_load qjson_codec p (Json_dump qjson_codec p d w)) =
           QJsonDocument_fromJson (QJsonDocument_toJson d)"
proof -
  have rd: "readable (dumped_node w p (QJsonDocument_toJson d))"
    using assms by (auto simp: dumpable_def dumped_node_def split: option.splits node.splits)
  have "QJsonDocument_fromJson (QJsonDocument_toJson None) = None"
    by (simp add: QJsonDocument_toJson_def QJsonDocument_fromJson_def parseDocument_def eatBOM_def)
  then show ?thesis
    using load_after_dump [OF dumpable_succeeds [OF assms], of qjson_codec d p] rd
    by (auto simp: stored_doc_def qjson_codec_def CR_notin_toJson QJson_toJson_Nil)
qed

subsection \<open>Properties of dump and load on Qt\<close>

text \<open>
  C22. Round trip on Qt, exactly: after \<open>dump(p, d)\<close> onto a dumpable path,
  \<open>load(p)\<close> returns \<open>d\<close> if and only if \<open>d\<close> is well formed: the null
  document, or an array or object within Qt's parser nesting limit of 1024.
  A deeper document is written by \<open>dump\<close> but never loaded back.
\<close>

theorem Json_qt_dump_load:
  assumes "dumpable w p"
  shows "fst (Json_load qjson_codec p (Json_dump qjson_codec p d w)) = d \<longleftrightarrow> wf_doc d"
proof
  assume "fst (Json_load qjson_codec p (Json_dump qjson_codec p d w)) = d"
  then show "wf_doc d" using qjson_load_wf [of p "Json_dump qjson_codec p d w"] by simp
next
  assume "wf_doc d"
  then have "stored_doc qjson_codec (Json_dump qjson_codec p d w) p = d"
    using stored_doc_dump [OF assms qjson_codec_roundtrips] by simp
  then show "fst (Json_load qjson_codec p (Json_dump qjson_codec p d w)) = d"
    by (simp add: stored_doc_def)
qed

theorem Json_qt_dump_load_witness:
  "dumpable demo_world [''cfg'', ''a.json''] \<and>
   fst (Json_load qjson_codec [''cfg'', ''a.json'']
     (Json_dump qjson_codec [''cfg'', ''a.json''] (Some (JObj [(''k'', JArr [JInt (-7), JStr ''x'']), (''z'', JNull)])) demo_world))
   = Some (JObj [(''k'', JArr [JInt (-7), JStr ''x'']), (''z'', JNull)])"
proof -
  have h: "dumpable demo_world [''cfg'', ''a.json'']"
    by (simp add: dumpable_def QDir_cdUp_def demo_world_def)
  have "wf_doc (Some (JObj [(''k'', JArr [JInt (-7), JStr ''x'']), (''z'', JNull)]))"
    by (simp add: wf_doc_def is_container_def)
  then show ?thesis using h Json_qt_dump_load [OF h] by blast
qed

text \<open>
  C25. Round trip on Qt for every array and object with integers in range
  and sorted keys, exactly: after \<open>dump(p, d)\<close> onto a dumpable path,
  \<open>load(p)\<close> returns \<open>d\<close> when it is nested at most 1024 levels deep, and
  the null document \<open>QJsonDocument{}\<close> when it is deeper. The file holds the
  full text, but Qt's parser refuses it.
\<close>

theorem Json_qt_dump_load_depth:
  assumes "dumpable w p" and "is_container v" and "wf_jv v"
  shows "fst (Json_load qjson_codec p (Json_dump qjson_codec p (Some v) w)) =
           (if jdepth v \<le> nestingLimit then Some v else None)"
  using qjson_load_dump [OF assms(1)] QJson_fromJson_toJson [OF assms(2,3)] by simp

theorem Json_qt_dump_load_depth_witness:
  "dumpable demo_world [''cfg'', ''a.json''] \<and> is_container (nested 1024) \<and> wf_jv (nested 1024) \<and>
   fst (Json_load qjson_codec [''cfg'', ''a.json''] (Json_dump qjson_codec [''cfg'', ''a.json''] (Some (nested 1024)) demo_world)) = None \<and>
   fst (Json_load qjson_codec [''cfg'', ''a.json''] (Json_dump qjson_codec [''cfg'', ''a.json''] (Some (nested 1023)) demo_world)) = Some (nested 1023)"
proof -
  have h1: "dumpable demo_world [''cfg'', ''a.json'']"
    by (simp add: dumpable_def QDir_cdUp_def demo_world_def)
  have h2: "is_container (nested 1024)" "wf_jv (nested 1024)" "is_container (nested 1023)" "wf_jv (nested 1023)"
    by simp_all
  show ?thesis
    using Json_qt_dump_load_depth [OF h1 h2(1,2)] Json_qt_dump_load_depth [OF h1 h2(3,4)] h1 h2
    by simp
qed

text \<open>One \<open>dump\<close> of a Qt document on the store view: the path then stores its normal form.\<close>

lemma qjson_stored_dump:
  assumes "dumpable w p" and "qt_document d"
  shows "stored_doc qjson_codec (Json_dump qjson_codec p d w) = (stored_doc qjson_codec w)(p := qt_norm d)"
proof
  fix q
  have p: "stored_doc qjson_codec (Json_dump qjson_codec p d w) p = qt_norm d"
  proof (cases d)
    case None
    then show ?thesis using qjson_load_dump [OF assms(1), of None]
      by (simp add: stored_doc_def qt_norm_def wf_doc_def QJsonDocument_toJson_def
          QJsonDocument_fromJson_def parseDocument_def eatBOM_def)
  next
    case (Some v)
    then have "is_container v" "wf_jv v" using assms(2) by (simp_all add: qt_document_def)
    then show ?thesis using qjson_load_dump [OF assms(1), of d] QJson_fromJson_toJson Some
      by (simp add: stored_doc_def qt_norm_def wf_doc_def)
  qed
  show "stored_doc qjson_codec (Json_dump qjson_codec p d w) q = ((stored_doc qjson_codec w)(p := qt_norm d)) q"
  proof (cases "q = p")
    case True
    then show ?thesis using p by simp
  next
    case False
    then show ?thesis using load_after_dump [OF dumpable_succeeds [OF assms(1)], of qjson_codec d q] by simp
  qed
qed

text \<open>
  C26. The whole program on Qt: for any sequence of \<open>dump\<close> and \<open>load\<close>
  calls whose dumps go to dumpable paths and carry documents a
  \<open>QJsonDocument\<close> can hold, every \<open>load\<close> returns what an abstract store
  returns when each dump stores the document, or the null document when the
  document is nested deeper than 1024 levels.
\<close>

theorem Json_qt_run:
  assumes "\<forall>p \<in> dumped_paths ops. dumpable w p" and "\<forall>d \<in> dumped_docs ops. qt_document d"
  shows "fst (Json_run qjson_codec ops w) = store_run (stored_doc qjson_codec w) (map (map_JsonOp qt_norm) ops)"
proof -
  have "\<forall>d \<in> dumped_docs ops. \<forall>w p. dumpable w p \<longrightarrow>
      stored_doc qjson_codec (Json_dump qjson_codec p d w) = (stored_doc qjson_codec w)(p := qt_norm d)"
    using assms(2) qjson_stored_dump by blast
  then show ?thesis using Json_run_store_norm [OF assms(1)] by blast
qed

theorem Json_qt_run_witness:
  "dumped_paths [JDump [''cfg'', ''a.json''] (Some (nested 1024)), JLoad [''cfg'', ''a.json''],
       JDump [''cfg'', ''b.json''] (Some (nested 2)), JLoad [''cfg'', ''b.json''], JLoad [''cfg'', ''a.json'']]
     = {[''cfg'', ''a.json''], [''cfg'', ''b.json'']} \<and>
   dumpable demo_world [''cfg'', ''a.json''] \<and> dumpable demo_world [''cfg'', ''b.json''] \<and>
   dumped_docs [JDump [''cfg'', ''a.json''] (Some (nested 1024)), JLoad [''cfg'', ''a.json''],
       JDump [''cfg'', ''b.json''] (Some (nested 2)), JLoad [''cfg'', ''b.json''], JLoad [''cfg'', ''a.json'']]
     = {Some (nested 1024), Some (nested 2)} \<and>
   qt_document (Some (nested 1024)) \<and> qt_document (Some (nested 2)) \<and>
   fst (Json_run qjson_codec [JDump [''cfg'', ''a.json''] (Some (nested 1024)), JLoad [''cfg'', ''a.json''],
       JDump [''cfg'', ''b.json''] (Some (nested 2)), JLoad [''cfg'', ''b.json''], JLoad [''cfg'', ''a.json'']]
     demo_world) = [None, Some (nested 2), None]"
proof -
  let ?ops = "[JDump [''cfg'', ''a.json''] (Some (nested 1024)), JLoad [''cfg'', ''a.json''],
       JDump [''cfg'', ''b.json''] (Some (nested 2)), JLoad [''cfg'', ''b.json''], JLoad [''cfg'', ''a.json'']]"
  have h0: "dumped_paths ?ops = {[''cfg'', ''a.json''], [''cfg'', ''b.json'']}"
    "dumped_docs ?ops = {Some (nested 1024), Some (nested 2)}" by auto
  have h1: "dumpable demo_world [''cfg'', ''a.json'']" "dumpable demo_world [''cfg'', ''b.json'']"
    by (simp_all add: dumpable_def QDir_cdUp_def demo_world_def)
  have h2: "qt_document (Some (nested 1024))" "qt_document (Some (nested 2))"
    by (simp_all add: qt_document_def)
  have a1: "\<forall>p \<in> dumped_paths ?ops. dumpable demo_world p" using h0 h1 by simp
  have a2: "\<forall>d \<in> dumped_docs ?ops. qt_document d" using h0 h2 by simp
  have "wf_doc (Some (nested 2))" "\<not> wf_doc (Some (nested 1024))" by (simp_all add: wf_doc_def)
  then show ?thesis using Json_qt_run [OF a1 a2] h0 h1 h2 by (simp add: qt_norm_def)
qed

end
