(* ===== verification/Interleave.thy ===== *)
theory Interleave
  imports JsonStore
begin

text \<open>
  The two components on one file system: a program holds a \<open>jnc::File\<close>
  handle and, between the handle's calls, calls \<open>Json::dump\<close> and
  \<open>Json::load\<close>, which open and close their own local \<open>File\<close>. Neither
  component locks a file, so a \<open>dump\<close> may rewrite the file the handle
  has open. The theory shows that the handle invariant survives any such
  interleaving, and what a write through the handle does to a file that a
  \<open>dump\<close> has rewritten under it.
\<close>

datatype 'd AppOp = FCall FileOp | JCall "'d JsonOp"

text \<open>One call of either component on the handle and the world.\<close>

fun App_step :: "'d JsonCodec \<Rightarrow> 'd AppOp \<Rightarrow> File \<times> world \<Rightarrow> File \<times> world" where
  "App_step J (FCall op) s = File_step op s"
| "App_step J (JCall (JDump p d)) (f, w) = (f, dump (Json J) p d w)"
| "App_step J (JCall (JLoad p)) (f, w) = (f, snd (load (Json J) p w))"

inductive App_reach :: "'d JsonCodec \<Rightarrow> world \<Rightarrow> File \<times> world \<Rightarrow> bool" for J w0 where
  start: "App_reach J w0 (File_new, w0)"
| step: "App_reach J w0 s \<Longrightarrow> App_reach J w0 (App_step J op s)"

subsection \<open>A dump under an open handle\<close>

text \<open>
  A \<open>dump\<close> keeps the handle invariant of another handle: it touches only
  the dumped path, leaves a regular file there, and gives back its descriptor.
\<close>

lemma File_inv_dump:
  assumes "File_inv w0 f w"
  shows "File_inv w0 f (Json_dump J p d w)"
proof (cases "dump_succeeds w p")
  case True
  have "wf_fs (w\<lparr>fs := (fs w)(p \<mapsto> dumped_node w p (toJson J d))\<rparr>)"
    using dump_succeeds_wf [OF _ True] assms by (simp add: File_inv_def)
  moreover have "\<exists>c r wr. dumped_node w p (toJson J d) = Reg c r wr"
    by (auto simp: dumped_node_def split: option.splits node.splits)
  ultimately show ?thesis
    using assms True by (auto simp: Json_dump_eq File_inv_def)
next
  case False
  then show ?thesis using assms by (simp add: Json_dump_eq)
qed

lemma File_inv_App_step:
  assumes "File_inv w0 (fst s) (snd s)"
  shows "File_inv w0 (fst (App_step J op s)) (snd (App_step J op s))"
proof -
  obtain f w where s: "s = (f, w)" by fastforce
  show ?thesis
  proof (cases op)
    case (FCall fop)
    then show ?thesis using File_inv_step [OF assms] by simp
  next
    case (JCall jop)
    then show ?thesis
      using assms s File_inv_dump [of w0 f w J]
      by (cases jop) (simp_all add: Json_def Json_load_stored)
  qed
qed

text \<open>
  A \<open>dump\<close> onto the file an open handle names, in a writing mode: the file
  then holds the dumped text, with the file's permissions kept.
\<close>

lemma fs_dump_open_file:
  assumes "fs w p = Some (Reg c r True)" and "QDir_cdUp p w"
  shows "fs (Json_dump J p d w) = (fs w)(p \<mapsto> Reg (toJson J d) r True)"
proof -
  have "dump_succeeds w p" using assms by (simp add: dump_succeeds_def)
  then show ?thesis using assms(1) by (simp add: Json_dump_eq dumped_node_def)
qed

subsection \<open>Properties of interleaved calls\<close>

text \<open>
  C23. Composition: in every state reached from a fresh handle in a
  well-formed world by any interleaving of the handle's calls with
  \<open>Json::dump\<close> and \<open>Json::load\<close> calls on any paths, also on the file the
  handle has open, the handle invariant \<open>File_inv\<close> holds: the world stays
  well formed, the handle holds one descriptor while open and none when
  closed (the \<open>Json\<close> calls hold none after they return), and an open handle
  still names a regular file.
\<close>

theorem App_reach_inv:
  assumes "App_reach J w0 s" and "wf_fs w0"
  shows "File_inv w0 (fst s) (snd s)"
  using assms(1)
proof (induction rule: App_reach.induct)
  case start
  show ?case using assms(2) by (simp add: File_inv_def)
next
  case (step s op)
  from step.IH show ?case by (rule File_inv_App_step)
qed

theorem App_reach_inv_witness:
  "App_reach demo_codec demo_world
     (App_step demo_codec (FCall (OpWrite ''x''))
       (App_step demo_codec (JCall (JDump [''cfg'', ''a.json''] ''[1]''))
         (App_step demo_codec (FCall (OpOpen [''cfg'', ''a.json''] 2)) (File_new, demo_world)))) \<and>
   wf_fs demo_world \<and>
   File_inv demo_world
     (fst (App_step demo_codec (FCall (OpWrite ''x''))
       (App_step demo_codec (JCall (JDump [''cfg'', ''a.json''] ''[1]''))
         (App_step demo_codec (FCall (OpOpen [''cfg'', ''a.json''] 2)) (File_new, demo_world)))))
     (snd (App_step demo_codec (FCall (OpWrite ''x''))
       (App_step demo_codec (JCall (JDump [''cfg'', ''a.json''] ''[1]''))
         (App_step demo_codec (FCall (OpOpen [''cfg'', ''a.json''] 2)) (File_new, demo_world)))))"
proof -
  have h1: "App_reach demo_codec demo_world
     (App_step demo_codec (FCall (OpWrite ''x''))
       (App_step demo_codec (JCall (JDump [''cfg'', ''a.json''] ''[1]''))
         (App_step demo_codec (FCall (OpOpen [''cfg'', ''a.json''] 2)) (File_new, demo_world))))"
    by (rule App_reach.step [OF App_reach.step [OF App_reach.step [OF App_reach.start]]])
  have h2: "wf_fs demo_world" by (auto simp: wf_fs_def demo_world_def)
  show ?thesis using h1 h2 App_reach_inv [OF h1 h2] by blast
qed

text \<open>
  C24. Interleaving on one file: a handle open in a writing mode on a file
  that \<open>Json::dump\<close> then rewrites keeps its position. Its next write goes
  after the dumped text in the appending modes; in the other modes it lands
  at the handle's old position within the dumped text, over what is there,
  and a position past the end of the dumped text leaves zero bytes between.
\<close>

theorem File_write_after_dump:
  assumes "qf_openMode f = device_mode m" and "m \<noteq> read" and "t \<noteq> []"
    and "fs w (qf_fileName f) = Some (Reg c r True)" and "QDir_cdUp (qf_fileName f) w"
  shows "file_text (snd (File_write t f (Json_dump J (qf_fileName f) d w))) (qf_fileName f) =
     (if m \<in> {append, appendplus} then toJson J d @ t
      else write_at (toJson J d) (nat (File_tell f)) t)"
proof -
  let ?w = "Json_dump J (qf_fileName f) d w"
  have reg: "fs ?w (qf_fileName f) = Some (Reg (toJson J d) r True)"
    using fs_dump_open_file [OF assms(4,5), where J = J and d = d] by simp
  show ?thesis
    using File_write_text(1) [OF reg, of t] assms(1-3)
    by (simp add: file_text_def File_tell_def)
qed

theorem File_write_after_dump_witness:
  "qf_openMode (File_new\<lparr>qf_fileName := [''cfg'', ''a.json''], qf_openMode := device_mode writeplus, qf_pos := 5\<rparr>) = device_mode writeplus \<and>
   writeplus \<noteq> read \<and> ''x'' \<noteq> [] \<and>
   fs demo_world (qf_fileName (File_new\<lparr>qf_fileName := [''cfg'', ''a.json''], qf_openMode := device_mode writeplus, qf_pos := 5\<rparr>)) = Some (Reg ''{}'' True True) \<and>
   QDir_cdUp (qf_fileName (File_new\<lparr>qf_fileName := [''cfg'', ''a.json''], qf_openMode := device_mode writeplus, qf_pos := 5\<rparr>)) demo_world \<and>
   file_text (snd (File_write ''x'' (File_new\<lparr>qf_fileName := [''cfg'', ''a.json''], qf_openMode := device_mode writeplus, qf_pos := 5\<rparr>)
       (Json_dump demo_codec [''cfg'', ''a.json''] ''[]'' demo_world))) [''cfg'', ''a.json''] =
     ''[]'' @ [CHR 0x00, CHR 0x00, CHR 0x00] @ ''x''"
proof -
  let ?f = "File_new\<lparr>qf_fileName := [''cfg'', ''a.json''], qf_openMode := device_mode writeplus, qf_pos := 5\<rparr>"
  have h1: "qf_openMode ?f = device_mode writeplus" by simp
  have h2: "writeplus \<noteq> read" by simp
  have h3: "''x'' \<noteq> []" by simp
  have h4: "fs demo_world (qf_fileName ?f) = Some (Reg ''{}'' True True)" by (simp add: demo_world_def)
  have h5: "QDir_cdUp (qf_fileName ?f) demo_world" by (simp add: QDir_cdUp_def demo_world_def)
  have "file_text (snd (File_write ''x'' ?f (Json_dump demo_codec (qf_fileName ?f) ''[]'' demo_world))) (qf_fileName ?f) =
      write_at ''[]'' 5 ''x''"
    using File_write_after_dump [OF h1 h2 h3 h4 h5, of demo_codec "''[]''"]
    by (simp add: demo_codec_def File_tell_def)
  then show ?thesis using h1 h2 h3 h4 h5 by (simp add: write_at_def numeral_eq_Suc)
qed

end
