(* ===== verification/Spec2Isabelle.thy ===== *)
theory Spec2Isabelle
  imports JsonQt Interleave
begin

text \<open>
  \<^bold>\<open>A verification development of the jnc file and JSON wrappers
  (src/Qt/File.h, src/Qt/File.cpp, src/Qt/Json.h, src/Qt/Json.cpp).\<close>

  \<^bold>\<open>The program.\<close> Two small C++ classes over Qt 6. \<open>jnc::File\<close> owns one
  \<open>QFile\<close> and offers \<open>open(fileName, mode)\<close>, returning an \<open>ErrorCode\<close>,
  \<open>close()\<close>, \<open>read()\<close> (the rest of the file through a \<open>QTextStream\<close>),
  \<open>write(text)\<close>, \<open>seek(pos)\<close> and \<open>tell()\<close>. \<open>open\<close> first checks that the
  parent directory exists (\<open>QDir::cdUp\<close>), then maps the six \<open>OpenMode\<close>
  enumerators to \<open>QIODevice\<close> flags in a \<open>switch\<close>, then renames and opens
  the \<open>QFile\<close>. \<open>jnc::Json\<close> has two static functions: \<open>dump(fileName, doc)\<close>
  opens a local \<open>File\<close> in \<open>write\<close> mode and writes \<open>doc.toJson()\<close>, silently
  returning when the open fails; \<open>load(fileName)\<close> opens one in \<open>read\<close> mode,
  reads everything and parses it with \<open>QJsonDocument::fromJson\<close> unless it is
  empty, returning the default document on any failure. The local \<open>File\<close> is
  destroyed on every return path, which closes its \<open>QFile\<close>.

  \<^bold>\<open>Theories.\<close>
  \<^item> \<open>Prelude\<close>: the theorem collections \<open>qt_defs\<close> and \<open>jnc_defs\<close>, the
    types \<open>path\<close> (normalised component list) and \<open>qint64\<close> (\<open>int\<close>), and
    the list operations \<open>strip_CR\<close> and \<open>write_at\<close> with their lemmas.
  \<^item> \<open>QtModel\<close>: the library the code calls, modelled from Qt's documented
    behaviour, not from the repository: a \<open>world\<close> record (file system as a
    map from paths to \<open>Dir\<close> or \<open>Reg content readable writable\<close>, and the
    count of open descriptors), the \<open>QIODeviceBase::OpenMode\<close> flags as
    \<open>32 word\<close> constants tested with \<open>AND\<close>, \<open>QDir_cdUp\<close>, the engine's flag
    normalisation \<open>engine_mode\<close> (\<open>Append\<close> implies \<open>WriteOnly\<close>; \<open>WriteOnly\<close>
    alone implies \<open>Truncate\<close>), \<open>posix_open\<close>, and the \<open>QFile\<close> record with
    \<open>QFile_open\<close>, \<open>QFile_close\<close>, \<open>QFile_setFileName\<close> (closes an open
    file), \<open>QFile_seek\<close>, \<open>QTextStream_readAll\<close> (drops every carriage
    return in text mode) and \<open>QTextStream_write\<close> (appends at the end under
    \<open>Append\<close>, whatever the position).
  \<^item> \<open>JncFile\<close>: \<open>OpenMode\<close> and \<open>ErrorCode\<close> as datatypes with the source's
    enumerators, \<open>OpenMode_val\<close> (their \<open>int\<close> values), and one definition
    per method of File.cpp: \<open>File_new\<close> (constructor), \<open>File_delete\<close>
    (destructor), \<open>File_ioMode\<close> (the \<open>switch\<close>), \<open>File_open\<close>,
    \<open>File_close\<close>, \<open>File_read\<close>, \<open>File_write\<close>, \<open>File_seek\<close>, \<open>File_tell\<close>.
    A \<open>jnc::File\<close> is its \<open>QFile\<close>; each method takes it and the world and
    returns them updated. \<open>File_open\<close> takes the \<open>int\<close> value of its
    \<open>OpenMode\<close> argument, so that the \<open>default:\<close> branch is reachable.
  \<^item> \<open>JncJson\<close>: \<open>Json_dump\<close> and \<open>Json_load\<close> over a codec record
    (\<open>toJson\<close>, \<open>fromJson\<close>, \<open>nullDoc\<close>) for an abstract document type;
    their closed forms \<open>Json_dump_eq\<close> and \<open>Json_load_eq\<close>; the store view
    \<open>stored_doc\<close>; the class \<open>Json\<close> of Json.h, which has no objects, as
    the record \<open>JsonApi\<close> of its two static members.
  \<^item> \<open>JsonStore\<close>: a client's sequence of calls as a list of \<open>JsonOp\<close>
    (\<open>JDump p d\<close>, \<open>JLoad p\<close>), run on the world by \<open>Json_run\<close> and on an
    abstract store (a function from paths to documents) by \<open>store_run\<close>;
    \<open>dumpable\<close> and \<open>good_run\<close> say which sequences the simulation covers.
  \<^item> \<open>QJson\<close>, \<open>QJsonRoundtrip\<close>, \<open>QJsonParser\<close>, \<open>QJsonFuel\<close>,
    \<open>QJsonDepth\<close>: the two
    members of \<open>QJsonDocument\<close> the code calls, modelled from Qt's writer and
    parser (library code, not the repository's): \<open>QJsonDocument_toJson\<close>
    (the indented format of \<open>valueToJson\<close>, \<open>arrayContentToJson\<close>,
    \<open>objectContentToJson\<close>, with \<open>escapedString\<close> and \<open>int_str\<close>) and
    \<open>QJsonDocument_fromJson\<close> (\<open>eatBOM\<close>, \<open>eatSpace\<close>, and the mutually
    recursive \<open>parseValue\<close>, \<open>parseArray\<close>, \<open>parseElements\<close>,
    \<open>parseObject\<close>, \<open>parseMembers\<close>, with the nesting limit 1024 and
    sorted insertion of object members). Then: the writer's output parses
    back for every well-formed document; every parse result is well formed;
    every parse consumes input; and the fuel \<open>3 L + 3\<close> that \<open>fromJson\<close>
    gives the parser on a text of length \<open>L\<close> is never the reason it fails;
    and, with any fuel, the writer's text of a value parses to that value or
    to nothing, so a value deeper than the limit parses to nothing.
  \<^item> \<open>JsonQt\<close>: \<open>jnc::Json\<close> with Qt's codec (\<open>qjson_codec\<close>), where the
    hypothesis of the abstract round trip is discharged.
  \<^item> \<open>Interleave\<close>: the two components on one world. A program holds one
    \<open>jnc::File\<close> handle and calls \<open>Json::dump\<close> and \<open>Json::load\<close> between
    the handle's calls (\<open>AppOp\<close>, \<open>App_step\<close>, the inductive set
    \<open>App_reach\<close> of reachable states); neither class locks a file, so a
    \<open>dump\<close> may rewrite the file the handle has open.

  \<^bold>\<open>Call sequences.\<close> \<open>JncFile\<close> also holds a datatype \<open>FileOp\<close> of
  the six method calls, a step function \<open>File_step\<close> that performs one call
  on a handle and a world, the inductive set \<open>File_reach w0\<close> of the
  states reached from a fresh handle by any sequence of calls, and the
  invariant \<open>File_inv\<close>: the world stays well formed (\<open>wf_fs\<close>: the root is
  a directory and the parent of every entry is a directory), an open handle
  holds exactly one descriptor more than the start and a closed one none, an
  open handle names a regular file in one of the six device modes, and the
  position is never negative (and 0 on a closed handle). \<open>device_mode m\<close> is the device mode the
  handle has after a successful open in mode \<open>m\<close>.

  \<^bold>\<open>What is proved.\<close> For \<open>jnc::Json\<close>: that \<open>dump\<close> refines the
  update of an abstract store of documents indexed by path, for every
  document the codec round-trips (C1); the result of \<open>load\<close> on every path
  (C14), that \<open>load\<close> has no effect on the world (C15), that \<open>dump\<close> fails
  silently and without effect (C16), and what a successful \<open>dump\<close> leaves
  in the file system (C17).
  For \<open>jnc::File::open\<close>: the flags each mode gives the operating system
  (C2), the error code of every case (C3), that a missing parent directory
  wins over an invalid mode (C4), that an out-of-range mode value changes
  nothing (C5), the state after a successful open (C7) and after a failed
  one, which has closed a file that was open before (C13).
  For the other methods: the invariant of every call sequence, by rule
  induction on \<open>File_reach\<close> (C6); writes in the appending modes ignore
  \<open>seek\<close> (C8); \<open>write\<close>, \<open>seek(0)\<close>, \<open>read\<close> in \<open>writeplus\<close> returns
  the text without carriage returns (C9); the result of \<open>read\<close> (C10) and
  the effect of \<open>write\<close> (C11) in each mode; that every method is a silent
  no-op on a closed handle (C12); that the destructor releases every
  descriptor the handle ever held, after any call sequence (C18); and
  \<open>tell\<close> after \<open>seek\<close> (C19).
  For sequences of \<open>Json\<close> calls: the simulation of an abstract document
  store, by induction on the sequence (C20), and that any sequence keeps the
  file system well formed and leaks no descriptor (C21).
  On Qt's codec: \<open>load\<close> after \<open>dump\<close> gives the document back exactly
  when it is well formed (C22); for an array or object, it gives it back
  within 1024 levels and the null document beyond (C25); and for the whole
  program, any sequence of \<open>dump\<close> and \<open>load\<close> calls of documents a
  \<open>QJsonDocument\<close> can hold (\<open>qt_document\<close>) refines the abstract store
  in which each dump stores \<open>qt_norm\<close> of its document (C26), through the
  normalising simulation \<open>Json_run_store_norm\<close>.
  Composition: the handle invariant holds in every state of any interleaving
  of handle calls with \<open>Json\<close> calls (C23), and a write through a handle
  whose file a \<open>dump\<close> has rewritten lands at the handle's stale position
  in the new text, or after it in the appending modes (C24).
  The parser theories also prove facts of the Qt model alone (every parse
  result is well formed, a blank text parses to the null document,
  the fuel is adequate); they support the theorems above and are not
  claims about the repository code. Each theorem with a hypothesis has a
  witness evaluated on \<open>demo_world\<close>, a small file system with a directory,
  a readable-writable file and a read-only file.

  \<^bold>\<open>Bounds and fuel.\<close> The repository code has no loops. The only
  recursion is in the model of Qt's parser, which takes fuel: \<open>fromJson\<close>
  gives it \<open>3 L + 3\<close> units on a text of length \<open>L\<close>, because an array
  level costs three calls (value, array, elements) for its one opening
  bracket. \<open>parse_fuel_Suc\<close> shows that more fuel changes nothing above
  that bound. Positions are \<open>qint64\<close> values kept as \<open>int\<close>: no
  arithmetic of the code can reach \<open>2^63\<close>, and JSON integers are checked
  against the \<open>qint64\<close> range as \<open>toLongLong\<close> does.

  \<^bold>\<open>Not modelled.\<close> Floating-point JSON numbers (the parser model
  yields the null document on a fraction or an exponent, where Qt yields a
  double); \<open>\u\<close> escapes above 0xFF and the compact output format, which
  the code never requests; text encoding (UTF-8 and UTF-16 are identified
  with byte strings, so keys are ordered by bytes); Windows line end
  translation (the model is the Unix behaviour); symbolic links, hard links,
  directory permissions and other processes; the \<open>NewOnly\<close> and
  \<open>ExistingOnly\<close> flags, which the code never passes; paths are taken
  normalised, without \<open>.\<close> and \<open>..\<close>. The header src/Qt/Json.h declares
  only the two static functions and a deleted constructor, which have no
  behaviour beyond Json.cpp.
\<close>

end
